theory Spec2Isabelle
  imports Complex_Main "HOL-Library.AList"
begin

section \<open>JavaScript values\<close>

text \<open>
  A JavaScript number is modelled as an exact real: rounding, NaN and the infinities of
  IEEE doubles are outside the model.  An optional number (a property that may be
  \<^verbatim>\<open>undefined\<close>) is a \<^typ>\<open>real option\<close>.  A number is falsy when it is
  \<^verbatim>\<open>undefined\<close> or zero, which is what \<^verbatim>\<open>!x\<close> and \<^verbatim>\<open>x || y\<close> test.
\<close>

definition truthy :: "real option \<Rightarrow> bool" where
  "truthy v = (case v of None \<Rightarrow> False | Some x \<Rightarrow> x \<noteq> 0)"

text \<open>\<^verbatim>\<open>a || b\<close> on optional numbers.\<close>

definition js_or :: "real option \<Rightarrow> real option \<Rightarrow> real option" where
  "js_or a b = (if truthy a then a else b)"

text \<open>\<^verbatim>\<open>a || d\<close> where \<^verbatim>\<open>d\<close> is a numeric literal.\<close>

definition js_or_num :: "real option \<Rightarrow> real \<Rightarrow> real" where
  "js_or_num a d = (case a of None \<Rightarrow> d | Some x \<Rightarrow> if x \<noteq> 0 then x else d)"

text \<open>\<^verbatim>\<open>isNaN(Number(x))\<close> for an optional number: \<^verbatim>\<open>Number(undefined)\<close> is NaN.\<close>

definition isNaN_Number :: "real option \<Rightarrow> bool" where
  "isNaN_Number v = (v = None)"

text \<open>
  What a function throws: an error made by \<^verbatim>\<open>errorHandler\<close> with its message, a
  TypeError of the language, or an \<^verbatim>\<open>Error\<close> with a message.
\<close>

datatype js_error =
    ErrorHandler string
  | TypeError
  | Error string

section \<open>Beat grid: \<^verbatim>\<open>calcRegions\<close>\<close>

record track =
  t_id :: nat
  t_name :: string
  t_duration :: "real option"
  t_offset :: "real option"
  t_adjustedOffset :: "real option"
  t_bpm :: "real option"

text \<open>
  The beat resolution is one of the three values the controls can set
  (\<^verbatim>\<open>0.25\<close>, \<^verbatim>\<open>0.5\<close>, \<^verbatim>\<open>1\<close>): the cases of the zoom switch.
\<close>

datatype beat_resolution = Quarter | Half | Whole

fun resolution_num :: "beat_resolution \<Rightarrow> real" where
  "resolution_num Quarter = 0.25"
| "resolution_num Half = 0.5"
| "resolution_num Whole = 1"

record track_state =
  ts_adjustedBpm :: "real option"
  ts_beatResolution :: "beat_resolution option"
  ts_mixpoint :: "string option"

text \<open>The object spread \<^verbatim>\<open>{ ...prevTrackState, ...partialTrackState }\<close>.\<close>

definition spread_opt :: "'a option \<Rightarrow> 'a option \<Rightarrow> 'a option" where
  "spread_opt a b = (case b of None \<Rightarrow> a | Some y \<Rightarrow> Some y)"

definition spread_state :: "track_state \<Rightarrow> track_state \<Rightarrow> track_state" where
  "spread_state p q =
     \<lparr> ts_adjustedBpm = spread_opt (ts_adjustedBpm p) (ts_adjustedBpm q),
       ts_beatResolution = spread_opt (ts_beatResolution p) (ts_beatResolution q),
       ts_mixpoint = spread_opt (ts_mixpoint p) (ts_mixpoint q) \<rparr>"

record region =
  r_start :: real
  r_end :: real
  r_color :: string
  r_drag :: bool
  r_resize :: bool
  r_showTooltip :: bool

definition mk_region :: "real \<Rightarrow> real \<Rightarrow> region" where
  "mk_region tm skipLength =
     \<lparr> r_start = tm, r_end = tm + skipLength,
       r_color = ''rgba(255, 255, 255, 0)'',
       r_drag = False, r_resize = False, r_showTooltip = False \<rparr>"

record calc_result =
  cr_duration :: "real option"
  cr_adjustedBpm :: "real option"
  cr_skipLength :: real
  cr_beatResolution :: beat_resolution
  cr_regions :: "region list"
  cr_mixpoint :: "string option"

text \<open>
  The first part of \<^verbatim>\<open>calcRegions\<close>: when a value is missing the track goes to the
  analysis (\<^verbatim>\<open>analyzeTracks\<close>, a parameter here: its code is not part of the
  sources) and duration, bpm and offset are taken from the first track it returns.
\<close>

definition valsMissing :: "track \<Rightarrow> bool" where
  "valsMissing tr =
     (\<not> truthy (t_duration tr) \<or> isNaN_Number (t_bpm tr) \<or> isNaN_Number (t_offset tr))"

definition resolveVals ::
  "(track list \<Rightarrow> track list) \<Rightarrow> track \<Rightarrow> js_error + (real option \<times> real option \<times> real option)"
where
  "resolveVals analyzeTracks tr =
     (if valsMissing tr then
        (case analyzeTracks [tr] of
           [] \<Rightarrow> Inl TypeError
         | a # _ \<Rightarrow> Inr (t_duration a, t_bpm a, t_offset a))
      else Inr (t_duration tr, t_bpm tr, t_offset tr))"

text \<open>
  \<^verbatim>\<open>while (startPoint - beatInterval > 0) startPoint -= beatInterval\<close>.
  The loop does not return for a negative beat interval and a positive start point, so
  the result is an option: \<open>None\<close> is a loop that runs forever.
\<close>

partial_function (option) zeroTime :: "real \<Rightarrow> real \<Rightarrow> real option" where
  "zeroTime startPoint beatInterval =
     (if startPoint - beatInterval > 0
      then zeroTime (startPoint - beatInterval) beatInterval
      else Some startPoint)"

text \<open>
  \<^verbatim>\<open>for (let time = startPoint; time < duration; time += skipLength) regions.push(...)\<close>.
\<close>

partial_function (option) regionLoop ::
  "real \<Rightarrow> real \<Rightarrow> real \<Rightarrow> region list \<Rightarrow> region list option"
where
  "regionLoop tm duration skipLength regions =
     (if tm < duration
      then regionLoop (tm + skipLength) duration skipLength (regions @ [mk_region tm skipLength])
      else Some regions)"

definition calcRegions ::
  "(track list \<Rightarrow> track list) \<Rightarrow> track_state \<Rightarrow> track \<Rightarrow> track_state
     \<Rightarrow> (js_error + calc_result) option"
where
  "calcRegions analyzeTracks prevTrackState tr partialTrackState =
     (case resolveVals analyzeTracks tr of
        Inl e \<Rightarrow> Some (Inl e)
      | Inr (duration, bpm, offset) \<Rightarrow>
          if \<not> truthy duration
          then Some (Inl (ErrorHandler (''Please try adding '' @ t_name tr @ '' again.'')))
          else
            let st = spread_state prevTrackState partialTrackState;
                adjustedBpm = ts_adjustedBpm st;
                beatResolution = (case ts_beatResolution st of None \<Rightarrow> Quarter | Some r \<Rightarrow> r);
                mixpoint = ts_mixpoint st;
                beatInterval = 60 / js_or_num (js_or adjustedBpm bpm) 1;
                startPoint = js_or_num (js_or (t_adjustedOffset tr) offset) 0;
                skipLength = beatInterval * (1 / resolution_num beatResolution)
            in (case zeroTime startPoint beatInterval of
                  None \<Rightarrow> None
                | Some zero \<Rightarrow>
                    (case regionLoop zero (the duration) skipLength [] of
                       None \<Rightarrow> None
                     | Some regions \<Rightarrow>
                         Some (Inr \<lparr> cr_duration = duration,
                                     cr_adjustedBpm = adjustedBpm,
                                     cr_skipLength = skipLength,
                                     cr_beatResolution = beatResolution,
                                     cr_regions = regions,
                                     cr_mixpoint = mixpoint \<rparr>))))"

section \<open>Track Audio State and the transport: \<^verbatim>\<open>audioEvents\<close>\<close>

datatype stem = drums | bass | vocals | other

definition STEMS :: "stem list" where
  "STEMS = [drums, bass, vocals, other]"

text \<open>
  A stem of a loaded track.  A Tone.js player is a handle; a gain node is present or
  not, and when present the field holds the value of its gain parameter.
\<close>

record stem_audio =
  sa_player :: "nat option"
  sa_gainNode :: "real option"
  sa_volume :: "real option"
  sa_volumeMeter :: "real option"
  sa_mute :: "bool option"

definition empty_stem :: stem_audio where
  "empty_stem = \<lparr> sa_player = None, sa_gainNode = None, sa_volume = None,
                   sa_volumeMeter = None, sa_mute = None \<rparr>"

text \<open>
  What the transport reads from the waveform collaborator: the marker times of the
  markers plugin (absent when the plugin is), the skip length, the current time and the
  playhead.
\<close>

record waveform =
  wf_markers :: "real list option"
  wf_skipLength :: real
  wf_currentTime :: real
  wf_playheadTime :: real

record track_audio =
  ta_waveform :: "waveform option"
  ta_player :: "nat option"
  ta_playing :: "bool option"
  ta_time :: "real option"
  ta_gainNode :: "real option"
  ta_volumeMeter :: "real option"
  ta_volumeMeterInterval :: "int option"
  ta_stems :: "(stem \<Rightarrow> stem_audio option) option"

definition empty_audio :: track_audio where
  "empty_audio = \<lparr> ta_waveform = None, ta_player = None, ta_playing = None, ta_time = None,
                    ta_gainNode = None, ta_volumeMeter = None, ta_volumeMeterInterval = None,
                    ta_stems = None \<rparr>"

text \<open>The calls the transport makes on players, in the order it makes them.\<close>

datatype command =
    Start nat real "real option"
  | Stop nat real
  | SetPlaybackRate nat real
  | ConnectMeter nat

text \<open>
  The world of the transport: the store of Track Audio States by track id, the number of
  clock reads made so far, the live interval timers (handle and the track whose meters
  the timer's callback writes), the next timer handle, and the calls made on players.
\<close>

record world =
  w_audioState :: "(nat \<times> track_audio) list"
  w_instant :: nat
  w_timers :: "(int \<times> nat) list"
  w_nextTimer :: int
  w_cmds :: "command list"

text \<open>
  What the transport reads from outside: the two clocks (the value each returns at the
  \<open>i\<close>-th read), the track preferences and the stored tempo, and the slots of the mix.
\<close>

record env =
  e_now :: "nat \<Rightarrow> real"
  e_currentTime :: "nat \<Rightarrow> real"
  e_adjustedBpm :: "nat \<Rightarrow> real option"
  e_bpm :: "nat \<Rightarrow> real option"
  e_mixTracks :: "nat option list option"

definition truthy_id :: "nat option \<Rightarrow> bool" where
  "truthy_id i = (case i of None \<Rightarrow> False | Some n \<Rightarrow> n \<noteq> 0)"

definition get_track :: "world \<Rightarrow> nat \<Rightarrow> track_audio option" where
  "get_track w i = map_of (w_audioState w) i"

text \<open>\<^verbatim>\<open>getAudioState[id].stems()\<close>: \<^verbatim>\<open>undefined\<close> when the entry or the field is.\<close>

definition get_stems :: "world \<Rightarrow> nat \<Rightarrow> (stem \<Rightarrow> stem_audio option) option" where
  "get_stems w i = (case get_track w i of None \<Rightarrow> None | Some t \<Rightarrow> ta_stems t)"

text \<open>
  A setter of the store, \<^verbatim>\<open>setAudioState[id].field(v)\<close>: it writes the field of the
  entry, and makes the entry when the store has none for the id.
\<close>

fun upd_entry ::
  "nat \<Rightarrow> (track_audio \<Rightarrow> track_audio) \<Rightarrow> (nat \<times> track_audio) list \<Rightarrow> (nat \<times> track_audio) list"
where
  "upd_entry k f [] = [(k, f empty_audio)]"
| "upd_entry k f ((k', v) # xs) =
     (if k = k' then (k', f v) # xs else (k', v) # upd_entry k f xs)"

definition set_track :: "nat \<Rightarrow> (track_audio \<Rightarrow> track_audio) \<Rightarrow> world \<Rightarrow> world" where
  "set_track i f w = w\<lparr> w_audioState := upd_entry i f (w_audioState w) \<rparr>"

definition set_stem :: "nat \<Rightarrow> stem \<Rightarrow> (stem_audio \<Rightarrow> stem_audio) \<Rightarrow> world \<Rightarrow> world" where
  "set_stem i s f w =
     set_track i
       (\<lambda>t. let m = (case ta_stems t of None \<Rightarrow> (\<lambda>_. None) | Some m \<Rightarrow> m)
            in t\<lparr> ta_stems := Some (m(s \<mapsto> f (case m s of None \<Rightarrow> empty_stem | Some a \<Rightarrow> a))) \<rparr>) w"

text \<open>
  \<^verbatim>\<open>Object.keys(stems)\<close>.  The keys are listed in the order of \<^verbatim>\<open>STEMS\<close>; every
  stem is handled on its own, so the order shows only in the order of the calls made.
\<close>

definition stem_keys :: "(stem \<Rightarrow> stem_audio option) \<Rightarrow> stem list" where
  "stem_keys m = filter (\<lambda>s. m s \<noteq> None) STEMS"

text \<open>\<^verbatim>\<open>clearInterval(h)\<close>: no timer is live under the handle afterwards.\<close>

definition clearInterval :: "int option \<Rightarrow> world \<Rightarrow> world" where
  "clearInterval h w =
     (case h of None \<Rightarrow> w
      | Some x \<Rightarrow> w\<lparr> w_timers := filter (\<lambda>(h', _). h' \<noteq> x) (w_timers w) \<rparr>)"

definition clearVolumeMeter :: "nat \<Rightarrow> world \<Rightarrow> world" where
  "clearVolumeMeter trackId w =
     clearInterval (case get_track w trackId of None \<Rightarrow> None
                    | Some t \<Rightarrow> ta_volumeMeterInterval t) w"

text \<open>\<^verbatim>\<open>setInterval(callback, 20)\<close> for the meters of a track: a fresh handle.\<close>

definition setInterval :: "nat \<Rightarrow> world \<Rightarrow> int \<times> world" where
  "setInterval owner w =
     (w_nextTimer w,
      w\<lparr> w_timers := w_timers w @ [(w_nextTimer w, owner)], w_nextTimer := w_nextTimer w + 1 \<rparr>)"

definition getAllPlayers :: "world \<Rightarrow> nat list" where
  "getAllPlayers w = concat (map (\<lambda>(_, t). case ta_player t of None \<Rightarrow> [] | Some p \<Rightarrow> [p])
                                 (w_audioState w))"

subsection \<open>play\<close>

text \<open>The body of the loop over the stems of a track in \<^verbatim>\<open>play\<close>.\<close>

definition play_stem ::
  "real \<Rightarrow> real option \<Rightarrow> real option \<Rightarrow> real option \<Rightarrow> stem_audio \<Rightarrow> command list"
where
  "play_stem contextStartTime tm adjustedBpm bpm sa =
     (case sa_player sa of
        None \<Rightarrow> []
      | Some p \<Rightarrow>
          (if truthy adjustedBpm \<and> truthy bpm
           then [SetPlaybackRate p (the adjustedBpm / the bpm)] else [])
          @ [ConnectMeter p, Start p contextStartTime tm])"

definition play_track :: "env \<Rightarrow> real \<Rightarrow> nat \<Rightarrow> nat \<Rightarrow> real option \<Rightarrow> world \<Rightarrow> world" where
  "play_track ev contextStartTime i player tm w =
     (let w1 = clearVolumeMeter i w;
          adjustedBpm = e_adjustedBpm ev i;
          bpm = (if truthy adjustedBpm then e_bpm ev i else None);
          cmds = (case get_stems w1 i of
                    Some m \<Rightarrow>
                      concat (map (\<lambda>s. play_stem contextStartTime tm adjustedBpm bpm (the (m s)))
                                  (stem_keys m))
                  | None \<Rightarrow> [Start player contextStartTime tm]);
          w2 = w1\<lparr> w_cmds := w_cmds w1 @ cmds \<rparr>;
          (newInterval, w3) = setInterval i w2;
          w4 = set_track i (\<lambda>t. t\<lparr> ta_volumeMeterInterval := Some newInterval \<rparr>) w3
      in set_track i (\<lambda>t. t\<lparr> ta_playing := Some True \<rparr>) w4)"

text \<open>
  The loop of \<^verbatim>\<open>play\<close> over the entries of the store as they were when the call
  read it; a track without waveform or player, or another track than the one asked for,
  is skipped.
\<close>

fun play_loop ::
  "env \<Rightarrow> real \<Rightarrow> nat option \<Rightarrow> (nat \<times> track_audio) list \<Rightarrow> world \<Rightarrow> world"
where
  "play_loop ev contextStartTime trackId [] w = w"
| "play_loop ev contextStartTime trackId ((i, t) # rest) w =
     (if ta_waveform t = None \<or> ta_player t = None \<or> (truthy_id trackId \<and> Some i \<noteq> trackId)
      then play_loop ev contextStartTime trackId rest w
      else play_loop ev contextStartTime trackId rest
             (play_track ev contextStartTime i (the (ta_player t)) (ta_time t) w))"

text \<open>\<^verbatim>\<open>play\<close>: the clock is read into \<^verbatim>\<open>contextStartTime\<close>, then the loop runs.\<close>

definition play :: "env \<Rightarrow> nat option \<Rightarrow> world \<Rightarrow> world" where
  "play ev trackId w =
     (let contextStartTime = e_now ev (w_instant w);
          w1 = w\<lparr> w_instant := Suc (w_instant w) \<rparr>
      in play_loop ev contextStartTime trackId (w_audioState w1) w1)"

subsection \<open>pause\<close>

text \<open>\<^verbatim>\<open>player.stop(Transport.context.currentTime + 0.1)\<close>: one read of the context's time.\<close>

definition stop_player :: "env \<Rightarrow> nat \<Rightarrow> world \<Rightarrow> world" where
  "stop_player ev p w =
     w\<lparr> w_cmds := w_cmds w @ [Stop p (e_currentTime ev (w_instant w) + 0.1)],
        w_instant := Suc (w_instant w) \<rparr>"

fun stop_players :: "env \<Rightarrow> nat option list \<Rightarrow> world \<Rightarrow> world" where
  "stop_players ev [] w = w"
| "stop_players ev (None # ps) w = stop_players ev ps w"
| "stop_players ev (Some p # ps) w = stop_players ev ps (stop_player ev p w)"

text \<open>The loop of \<^verbatim>\<open>pause\<close> over the stems of a track.\<close>

fun pause_stems ::
  "env \<Rightarrow> nat \<Rightarrow> (stem \<Rightarrow> stem_audio option) \<Rightarrow> stem list \<Rightarrow> world \<Rightarrow> world"
where
  "pause_stems ev i m [] w = w"
| "pause_stems ev i m (s # ss) w =
     (let w1 = set_stem i s (\<lambda>a. a\<lparr> sa_volumeMeter := Some 0 \<rparr>) w
      in case sa_player (the (m s)) of
           None \<Rightarrow> pause_stems ev i m ss w1
         | Some p \<Rightarrow> pause_stems ev i m ss (stop_player ev p w1))"

definition pause_track :: "env \<Rightarrow> nat \<Rightarrow> world \<Rightarrow> world" where
  "pause_track ev i w =
     (let w1 = (case get_stems w i of
                  None \<Rightarrow> w
                | Some m \<Rightarrow> pause_stems ev i m (stem_keys m) w);
          w2 = clearVolumeMeter i w1;
          w3 = set_track i (\<lambda>t. t\<lparr> ta_volumeMeter := Some 0 \<rparr>) w2;
          w4 = set_track i (\<lambda>t. t\<lparr> ta_volumeMeterInterval := Some (- 1) \<rparr>) w3
      in set_track i (\<lambda>t. t\<lparr> ta_playing := Some False \<rparr>) w4)"

fun pause_tracks :: "env \<Rightarrow> nat list \<Rightarrow> world \<Rightarrow> world" where
  "pause_tracks ev [] w = w"
| "pause_tracks ev (i # ids) w = pause_tracks ev ids (pause_track ev i w)"

text \<open>
  \<^verbatim>\<open>pause\<close>: the track-level players are stopped first, then each track's stems,
  meters and timer are handled.  Without a track id all entries of the store are paused.
\<close>

definition pause :: "env \<Rightarrow> nat option \<Rightarrow> world \<Rightarrow> world" where
  "pause ev trackId w =
     (let (players, trackIds) =
            (if truthy_id trackId
             then ([case get_track w (the trackId) of None \<Rightarrow> None | Some t \<Rightarrow> ta_player t],
                   [the trackId])
             else (map Some (getAllPlayers w), map fst (w_audioState w)))
      in pause_tracks ev trackIds (stop_players ev players w))"

subsection \<open>Notions used to state the transport's properties\<close>

text \<open>The tracks \<^verbatim>\<open>play\<close> does not skip.\<close>

definition eligible :: "nat option \<Rightarrow> nat \<Rightarrow> track_audio \<Rightarrow> bool" where
  "eligible trackId i t =
     (ta_waveform t \<noteq> None \<and> ta_player t \<noteq> None \<and> (truthy_id trackId \<longrightarrow> trackId = Some i))"

text \<open>
  The starts a track is due: its own player when it has no stems, and otherwise one start
  for every stem that has a player.
\<close>

definition track_starts :: "real \<Rightarrow> track_audio \<Rightarrow> command set" where
  "track_starts t0 t =
     (case ta_stems t of
        None \<Rightarrow> {Start (the (ta_player t)) t0 (ta_time t)}
      | Some m \<Rightarrow> {Start p t0 (ta_time t) | p s a. m s = Some a \<and> sa_player a = Some p})"

definition starts_at :: "real \<Rightarrow> command list \<Rightarrow> bool" where
  "starts_at t0 cs = (\<forall>p t tm. Start p t tm \<in> set cs \<longrightarrow> t = t0)"

text \<open>The entry of a track, or the empty entry a setter would start from.\<close>

definition cur_track :: "world \<Rightarrow> nat \<Rightarrow> track_audio" where
  "cur_track w i = (case get_track w i of None \<Rightarrow> empty_audio | Some t \<Rightarrow> t)"


text \<open>
  Every live metering timer of the track is the one whose handle its state records:
  what \<^verbatim>\<open>play\<close> establishes when it stores the handle of the timer it creates.
\<close>

definition timer_recorded :: "world \<Rightarrow> nat \<Rightarrow> bool" where
  "timer_recorded w i =
     (\<forall>h. (h, i) \<in> set (w_timers w) \<longrightarrow> ta_volumeMeterInterval (cur_track w i) = Some h)"

text \<open>The players of a track: its own and those of its stems.\<close>

definition stem_players_of :: "track_audio \<Rightarrow> nat set" where
  "stem_players_of t = {p. \<exists>m s a. ta_stems t = Some m \<and> m s = Some a \<and> sa_player a = Some p}"

definition stem_players :: "world \<Rightarrow> nat \<Rightarrow> nat set" where
  "stem_players w i = stem_players_of (cur_track w i)"


text \<open>
  Every command of the list stops a player 0.1 s after a reading of the context's time
  taken at or after the instant \<open>lo\<close>.
\<close>

definition released :: "env \<Rightarrow> nat \<Rightarrow> command list \<Rightarrow> bool" where
  "released ev lo cs =
     (\<forall>c. c \<in> set cs \<longrightarrow> (\<exists>p k. c = Stop p (e_currentTime ev k + 0.1) \<and> lo \<le> k))"

text \<open>The state of a track after \<^verbatim>\<open>pause\<close>: meters at zero, no live timer, not playing.\<close>

definition paused :: "world \<Rightarrow> nat \<Rightarrow> bool" where
  "paused w i =
     (\<exists>t. get_track w i = Some t
         \<and> ta_volumeMeter t = Some 0
         \<and> (\<forall>m s a. ta_stems t = Some m \<and> m s = Some a \<longrightarrow> sa_volumeMeter a = Some 0)
         \<and> ta_volumeMeterInterval t = Some (- 1)
         \<and> ta_playing t = Some False
         \<and> (\<forall>h. (h, i) \<notin> set (w_timers w)))"

text \<open>Setting the meters of the stems in a set to zero.\<close>

definition zero_meters :: "stem set \<Rightarrow> track_audio \<Rightarrow> track_audio" where
  "zero_meters S t =
     (if S = {} then t
      else t\<lparr> ta_stems := Some (\<lambda>s. if s \<in> S
                 then Some ((case (case ta_stems t of None \<Rightarrow> (\<lambda>_. None) | Some m \<Rightarrow> m) s of
                               None \<Rightarrow> empty_stem | Some a \<Rightarrow> a)\<lparr> sa_volumeMeter := Some 0 \<rparr>)
                 else (case ta_stems t of None \<Rightarrow> (\<lambda>_. None) | Some m \<Rightarrow> m) s) \<rparr>)"

text \<open>What a run of stops appends: the commands, all releases, and the instant grows.\<close>

definition extends :: "env \<Rightarrow> world \<Rightarrow> world \<Rightarrow> command list \<Rightarrow> bool" where
  "extends ev w w' new =
     (w_cmds w' = w_cmds w @ new \<and> released ev (w_instant w) new \<and> w_instant w \<le> w_instant w')"

text \<open>The stems whose meters a pause of the track sets.\<close>

definition stem_set :: "world \<Rightarrow> nat \<Rightarrow> stem set" where
  "stem_set w i = (case get_stems w i of None \<Rightarrow> {} | Some m \<Rightarrow> {s. m s \<noteq> None})"

definition pause_entry :: "stem set \<Rightarrow> track_audio \<Rightarrow> track_audio" where
  "pause_entry S t =
     (zero_meters S t)\<lparr> ta_volumeMeter := Some 0, ta_volumeMeterInterval := Some (- 1),
                        ta_playing := Some False \<rparr>"

text \<open>
  A gain applied to a track: to its single gain control when it has no stems, and
  otherwise to the gain control of every stem, or of the one stem a filter names.
\<close>

definition gain_stem :: "stem option \<Rightarrow> real \<Rightarrow> stem \<Rightarrow> stem_audio \<Rightarrow> stem_audio" where
  "gain_stem stemType v s a =
     (if (stemType = None \<or> stemType = Some s) \<and> sa_gainNode a \<noteq> None
      then a\<lparr> sa_gainNode := Some v \<rparr> else a)"

definition apply_gain :: "stem option \<Rightarrow> real \<Rightarrow> track_audio \<Rightarrow> track_audio" where
  "apply_gain stemType v t =
     (case ta_stems t of
        None \<Rightarrow> (case ta_gainNode t of None \<Rightarrow> t | Some _ \<Rightarrow> t\<lparr> ta_gainNode := Some v \<rparr>)
      | Some m \<Rightarrow> t\<lparr> ta_stems := Some (\<lambda>s. map_option (gain_stem stemType v s) (m s)) \<rparr>)"

subsection \<open>crossfade and the stem controls\<close>

text \<open>A read of the clock, as in the second argument of \<^verbatim>\<open>setValueAtTime(v, now())\<close>.\<close>

definition tick :: "world \<Rightarrow> world" where
  "tick w = w\<lparr> w_instant := Suc (w_instant w) \<rparr>"

text \<open>
  The loop of \<^verbatim>\<open>updateVolume\<close> over the stems.  The volume is optional because
  \<^verbatim>\<open>crossfade\<close> passes \<^verbatim>\<open>volumes[i]\<close>, which is \<^verbatim>\<open>undefined\<close> beyond the
  second slot: a gain parameter refuses such a value with a TypeError.
\<close>

fun updateVolume_stems ::
  "nat \<Rightarrow> real option \<Rightarrow> stem option \<Rightarrow> (stem \<Rightarrow> stem_audio option) \<Rightarrow> stem list \<Rightarrow> world
     \<Rightarrow> js_error + world"
where
  "updateVolume_stems trackId volume stemType m [] w = Inr w"
| "updateVolume_stems trackId volume stemType m (s # ss) w =
     (if stemType \<noteq> None \<and> Some s \<noteq> stemType
      then updateVolume_stems trackId volume stemType m ss w
      else case sa_gainNode (the (m s)) of
             None \<Rightarrow> updateVolume_stems trackId volume stemType m ss w
           | Some _ \<Rightarrow>
               (case volume of
                  None \<Rightarrow> Inl TypeError
                | Some v \<Rightarrow>
                    updateVolume_stems trackId volume stemType m ss
                      (tick (set_stem trackId s (\<lambda>a. a\<lparr> sa_gainNode := Some v \<rparr>) w))))"

definition updateVolume :: "nat \<Rightarrow> real option \<Rightarrow> stem option \<Rightarrow> world \<Rightarrow> js_error + world" where
  "updateVolume trackId volume stemType w =
     (case get_stems w trackId of
        None \<Rightarrow>
          (case ta_gainNode (cur_track w trackId) of
             None \<Rightarrow> Inr w
           | Some _ \<Rightarrow>
               (case volume of
                  None \<Rightarrow> Inl TypeError
                | Some v \<Rightarrow> Inr (tick (set_track trackId (\<lambda>t. t\<lparr> ta_gainNode := Some v \<rparr>) w))))
      | Some m \<Rightarrow> updateVolume_stems trackId volume stemType m (stem_keys m) w)"

text \<open>The two volumes \<^verbatim>\<open>crossfade\<close> computes from the slider value.\<close>

definition volumes :: "real \<Rightarrow> real list" where
  "volumes sliderVal =
     (let sliderPercent = sliderVal / 100
      in [min 1 (1 + cos (sliderPercent * pi)), min 1 (1 + cos ((1 - sliderPercent) * pi))])"

definition nth_opt :: "'a list \<Rightarrow> nat \<Rightarrow> 'a option" where
  "nth_opt xs i = (if i < length xs then Some (xs ! i) else None)"

text \<open>\<^verbatim>\<open>tracks.forEach((track, i) => ...)\<close>: an exception ends the loop.\<close>

fun crossfade_loop ::
  "nat option list \<Rightarrow> nat \<Rightarrow> real list \<Rightarrow> stem option \<Rightarrow> world \<Rightarrow> js_error + world"
where
  "crossfade_loop [] i vs stemType w = Inr w"
| "crossfade_loop (track # rest) i vs stemType w =
     (if truthy_id track
      then (case updateVolume (the track) (nth_opt vs i) stemType w of
              Inl e \<Rightarrow> Inl e
            | Inr w' \<Rightarrow> crossfade_loop rest (Suc i) vs stemType w')
      else crossfade_loop rest (Suc i) vs stemType w)"

definition crossfade :: "env \<Rightarrow> real \<Rightarrow> stem option \<Rightarrow> world \<Rightarrow> js_error + world" where
  "crossfade ev sliderVal stemType w =
     (case e_mixTracks ev of
        None \<Rightarrow> Inr w
      | Some tracks \<Rightarrow> crossfade_loop tracks 0 (volumes sliderVal) stemType w)"

definition stemVolume :: "nat \<Rightarrow> stem \<Rightarrow> real \<Rightarrow> world \<Rightarrow> world" where
  "stemVolume trackId stemType volume w =
     (case get_stems w trackId of
        None \<Rightarrow> w
      | Some m \<Rightarrow>
          let gainNode = (case m stemType of None \<Rightarrow> None | Some a \<Rightarrow> sa_gainNode a);
              w1 = (case gainNode of
                      None \<Rightarrow> w
                    | Some _ \<Rightarrow> tick (set_stem trackId stemType
                                         (\<lambda>a. a\<lparr> sa_gainNode := Some volume \<rparr>) w))
          in set_stem trackId stemType (\<lambda>a. a\<lparr> sa_volume := Some volume \<rparr>) w1)"

definition stemMuteToggle :: "nat \<Rightarrow> stem \<Rightarrow> bool \<Rightarrow> world \<Rightarrow> world" where
  "stemMuteToggle trackId stemType mute w =
     (case get_stems w trackId of
        None \<Rightarrow> w
      | Some m \<Rightarrow>
          let gainNode = (case m stemType of None \<Rightarrow> None | Some a \<Rightarrow> sa_gainNode a);
              volume = (case m stemType of None \<Rightarrow> None | Some a \<Rightarrow> sa_volume a);
              w1 = (case gainNode of
                      None \<Rightarrow> w
                    | Some _ \<Rightarrow>
                        tick (set_stem trackId stemType
                                (\<lambda>a. a\<lparr> sa_gainNode := Some (if mute then 0 else js_or_num volume 1) \<rparr>)
                                w))
          in set_stem trackId stemType (\<lambda>a. a\<lparr> sa_mute := Some mute \<rparr>) w1)"

fun solo_loop :: "nat \<Rightarrow> stem \<Rightarrow> bool \<Rightarrow> stem list \<Rightarrow> world \<Rightarrow> world" where
  "solo_loop trackId stem solo [] w = w"
| "solo_loop trackId stem solo (s # ss) w =
     (if s \<noteq> stem
      then solo_loop trackId stem solo ss (stemMuteToggle trackId s solo w)
      else solo_loop trackId stem solo ss w)"

definition stemSoloToggle :: "nat \<Rightarrow> stem \<Rightarrow> bool \<Rightarrow> world \<Rightarrow> world" where
  "stemSoloToggle trackId stem solo w =
     (case get_stems w trackId of
        None \<Rightarrow> w
      | Some m \<Rightarrow> solo_loop trackId stem solo (stem_keys m) w)"

subsection \<open>seek and destroy\<close>

datatype direction = previous | next_marker

text \<open>
  \<^verbatim>\<open>markers[newIndex]\<close> for the index \<^verbatim>\<open>Math.floor(startTime / skipLength)\<close> moved by
  the direction.  A skip length of zero makes the quotient infinite or NaN in
  JavaScript, and no marker is found under such an index.
\<close>

definition marker_at :: "real list \<Rightarrow> int \<Rightarrow> real option" where
  "marker_at markers i = (if 0 \<le> i \<and> nat i < length markers then Some (markers ! nat i) else None)"

definition step :: "direction option \<Rightarrow> int" where
  "step d = (case d of None \<Rightarrow> 0 | Some next_marker \<Rightarrow> 1 | Some previous \<Rightarrow> - 1)"

definition seek_target :: "waveform \<Rightarrow> real \<Rightarrow> direction option \<Rightarrow> real option" where
  "seek_target wav startTime d =
     (let markers = (case wf_markers wav of None \<Rightarrow> [] | Some ms \<Rightarrow> ms)
      in if wf_skipLength wav = 0 then None
         else let currentMarkerIndex = \<lfloor>startTime / wf_skipLength wav\<rfloor>;
                  newIndex = currentMarkerIndex + step d
              in marker_at markers newIndex)"

definition seek ::
  "env \<Rightarrow> nat \<Rightarrow> real option \<Rightarrow> direction option \<Rightarrow> world \<Rightarrow> js_error + world"
where
  "seek ev trackId startTime0 d w =
     (case get_track w trackId of
        None \<Rightarrow> Inl TypeError
      | Some t \<Rightarrow>
          (case ta_waveform t of
             None \<Rightarrow> Inr w
           | Some wav \<Rightarrow>
               let playing = (ta_playing t = Some True);
                   w1 = (if playing then pause ev (Some trackId) w else w);
                   startTime = js_or_num startTime0 (wf_currentTime wav);
                   tm = seek_target wav startTime d;
                   w2 = (if truthy tm \<and> (the tm > startTime + 0.005 \<or> the tm < startTime - 0.005)
                         then set_track trackId (\<lambda>t. t\<lparr> ta_time := tm \<rparr>)
                                (set_track trackId
                                   (\<lambda>t. t\<lparr> ta_waveform :=
                                            map_option (\<lambda>f. f\<lparr> wf_playheadTime := the tm \<rparr>)
                                                       (ta_waveform t) \<rparr>) w1)
                         else w1)
               in Inr (if playing then play ev (Some trackId) w2 else w2)))"

text \<open>
  \<^verbatim>\<open>destroy\<close>: the waveform is destroyed and the entry of the track is deleted from the
  store.
\<close>

definition destroy :: "nat \<Rightarrow> world \<Rightarrow> world" where
  "destroy trackId w =
     w\<lparr> w_audioState := filter (\<lambda>(k, _). k \<noteq> trackId) (w_audioState w) \<rparr>"

section \<open>The event channel of the waveform: \<^verbatim>\<open>audioEvent\<close> and \<^verbatim>\<open>loadAudioEvents\<close>\<close>

text \<open>
  The older transport listens on a per-track event channel of the window.  A function
  object is known by its identity: a function the caller passes, or the arrow function
  that \<^verbatim>\<open>on\<close> makes around it.
\<close>

datatype fn = Callback nat | Arrow nat fn

record channel =
  ch_listeners :: "(nat \<times> fn) list"
  ch_nextFn :: nat

text \<open>
  \<^verbatim>\<open>on\<close> registers a new arrow function \<^verbatim>\<open>(e) => callback(e.detail)\<close> under the
  track id.
\<close>

definition on_event :: "nat \<Rightarrow> fn \<Rightarrow> channel \<Rightarrow> channel" where
  "on_event trackId callback c =
     c\<lparr> ch_listeners := ch_listeners c @ [(trackId, Arrow (ch_nextFn c) callback)],
        ch_nextFn := Suc (ch_nextFn c) \<rparr>"

text \<open>\<^verbatim>\<open>off\<close>: \<^verbatim>\<open>removeEventListener\<close> removes the listener that is the function given.\<close>

definition off_event :: "nat \<Rightarrow> fn \<Rightarrow> channel \<Rightarrow> channel" where
  "off_event trackId callback c =
     c\<lparr> ch_listeners := filter (\<lambda>(k, l). \<not> (k = trackId \<and> l = callback)) (ch_listeners c) \<rparr>"

text \<open>
  \<^verbatim>\<open>emit\<close>: the event goes to every listener registered under the track id, in the
  order of registration; the result lists the callbacks that receive its detail.
\<close>

definition emit :: "nat \<Rightarrow> string \<Rightarrow> channel \<Rightarrow> (fn \<times> string) list" where
  "emit trackId event c =
     concat (map (\<lambda>(k, l). if k = trackId
                    then (case l of Arrow _ callback \<Rightarrow> [(callback, event)]
                                  | Callback n \<Rightarrow> [(Callback n, event)])
                    else [])
                 (ch_listeners c))"

text \<open>
  \<^verbatim>\<open>destroyEvent\<close> of \<^verbatim>\<open>loadAudioEvents\<close>: it asks the channel to remove
  \<^verbatim>\<open>waveformEffects\<close>, the callback it had passed to \<^verbatim>\<open>on\<close>.
\<close>

definition destroyEvent :: "nat \<Rightarrow> fn \<Rightarrow> channel \<Rightarrow> channel" where
  "destroyEvent trackId waveformEffects c = off_event trackId waveformEffects c"

text \<open>
  \<^verbatim>\<open>seekEvent\<close> of \<^verbatim>\<open>loadAudioEvents\<close>: the call it makes on the waveform, if any.
  \<^verbatim>\<open>Math.round\<close> rounds to the nearest integer, halves upwards.
\<close>

datatype seek_move = SkipForward real | SetPlayheadTime real

definition js_round :: "real \<Rightarrow> int" where
  "js_round x = \<lfloor>x + 1 / 2\<rfloor>"

definition seekEvent :: "waveform \<Rightarrow> real option \<Rightarrow> direction option \<Rightarrow> seek_move option" where
  "seekEvent wav time0 d =
     (let startTime = (case time0 of None \<Rightarrow> wf_currentTime wav | Some x \<Rightarrow> x);
          markers = (case wf_markers wav of None \<Rightarrow> [] | Some ms \<Rightarrow> ms);
          tm = (if wf_skipLength wav = 0 then None
                else let currentMarkerIndex = js_round (startTime / wf_skipLength wav);
                         index = currentMarkerIndex + step d
                     in marker_at markers index)
      in if truthy tm \<and> (the tm > startTime + 0.005 \<or> the tm < startTime - 0.005)
         then Some (if d \<noteq> None then SkipForward (the tm - startTime)
                    else SetPlayheadTime (the tm))
         else None)"

section \<open>Stem lifecycle: \<^verbatim>\<open>storeTrackCache\<close>, \<^verbatim>\<open>validateTrackStemAccess\<close>, \<^verbatim>\<open>stemAudio\<close>\<close>

datatype StemState =
    selectStemDir | grantStemDirAccess | getStems | uploadingFile
  | processingStems | downloadingStems | ready | error

text \<open>A file or blob is known by an identity.\<close>

type_synonym blob = nat

record stem_file =
  sf_file :: "blob option"

record track_cache =
  tc_file :: "blob option"
  tc_stems :: "(stem \<Rightarrow> stem_file option) option"

definition CACHE_LIMIT :: nat where
  "CACHE_LIMIT = 25"

text \<open>\<^verbatim>\<open>db.trackCache.orderBy('id').first()\<close>: the row with the least id.\<close>

definition oldest :: "(nat \<times> track_cache) list \<Rightarrow> nat option" where
  "oldest db = (case db of [] \<Rightarrow> None | (k, _) # rest \<Rightarrow> Some (fold min (map fst rest) k))"

text \<open>
  \<^verbatim>\<open>storeTrackCache\<close>: the file defaults to the cached one, the stems given are merged
  over the cached stems, the oldest row is dropped when the table is over its limit, and
  the row is put.
\<close>

definition storeTrackCache ::
  "nat \<Rightarrow> blob option \<Rightarrow> (stem \<Rightarrow> stem_file option) option \<Rightarrow> (nat \<times> track_cache) list
     \<Rightarrow> (nat \<times> track_cache) list"
where
  "storeTrackCache i file0 stems0 db =
     (let cache = map_of db i;
          file = (case file0 of
                    None \<Rightarrow> (case cache of None \<Rightarrow> None | Some c \<Rightarrow> tc_file c)
                  | Some f \<Rightarrow> Some f);
          stems = (case (case cache of None \<Rightarrow> None | Some c \<Rightarrow> tc_stems c) of
                     None \<Rightarrow> stems0
                   | Some cs \<Rightarrow> Some (cs ++ (case stems0 of None \<Rightarrow> Map.empty | Some m \<Rightarrow> m)));
          db1 = (if length db > CACHE_LIMIT
                 then (case oldest db of None \<Rightarrow> db | Some k \<Rightarrow> AList.delete k db)
                 else db)
      in AList.update i \<lparr> tc_file = file, tc_stems = stems \<rparr> db1)"

record stem_entry =
  se_stemState :: "StemState option"
  se_stemTimer :: "real option"

text \<open>
  The state the lifecycle works on: the Track Audio States (by track id), the track
  cache, the set of tracks shown as analyzing, and the uploads made to the separation
  service, one for every generation workflow started.
\<close>

record stem_world =
  sw_audioState :: "nat \<Rightarrow> stem_entry option"
  sw_trackCache :: "(nat \<times> track_cache) list"
  sw_stemsAnalyzing :: "nat set"
  sw_uploads :: "nat list"

datatype permission = granted | denied | prompt

text \<open>
  The stems directory as the access check sees it: the answer to
  \<^verbatim>\<open>queryPermission\<close> (none when the call throws), and for a directory name the files
  listed in it (none when the directory does not exist; no list when listing throws).
\<close>

record stems_dir =
  sd_queryPermission :: "permission option"
  sd_entries :: "string \<Rightarrow> (string \<times> blob) list option option"

record access_env =
  ae_stemsDirHandle :: "stems_dir option"
  ae_trackName :: "nat \<Rightarrow> string option"

text \<open>\<^verbatim>\<open>name.substring(0, name.lastIndexOf('.'))\<close>; empty when the name has no dot.\<close>

definition FILENAME :: "string \<Rightarrow> string" where
  "FILENAME name =
     (if CHR ''.'' \<in> set name
      then take (length name - 1 - length (takeWhile (\<lambda>c. c \<noteq> CHR ''.'') (rev name))) name
      else [])"

definition ends_with :: "string \<Rightarrow> string \<Rightarrow> bool" where
  "ends_with suf s = (length suf \<le> length s \<and> drop (length s - length suf) s = suf)"

text \<open>The stem named by \<^verbatim>\<open>name.match(/- (bass|vocals|other|drums)\.mp3$/)\<close>.\<close>

definition stem_of_name :: "string \<Rightarrow> stem option" where
  "stem_of_name name =
     (if ends_with ''- bass.mp3'' name then Some bass
      else if ends_with ''- vocals.mp3'' name then Some vocals
      else if ends_with ''- other.mp3'' name then Some other
      else if ends_with ''- drums.mp3'' name then Some drums
      else None)"

fun localStems ::
  "(string \<times> blob) list \<Rightarrow> (stem \<Rightarrow> stem_file option) \<Rightarrow> (stem \<Rightarrow> stem_file option)"
where
  "localStems [] m = m"
| "localStems ((name, file) # rest) m =
     (case stem_of_name name of
        None \<Rightarrow> localStems rest m
      | Some s \<Rightarrow> localStems rest (m(s \<mapsto> \<lparr> sf_file = Some file \<rparr>)))"

text \<open>\<^verbatim>\<open>Object.keys(localStems).length\<close>.\<close>

definition count_keys :: "(stem \<Rightarrow> 'a option) \<Rightarrow> nat" where
  "count_keys m = length (filter (\<lambda>s. m s \<noteq> None) STEMS)"

definition checkAccess ::
  "access_env \<Rightarrow> nat \<Rightarrow> StemState option \<Rightarrow> (nat \<times> track_cache) list
     \<Rightarrow> js_error + (StemState \<times> (nat \<times> track_cache) list)"
where
  "checkAccess ae trackId stemState db =
     (if (case map_of db trackId of None \<Rightarrow> None | Some c \<Rightarrow> tc_stems c) \<noteq> None
      then Inr (ready, db)
      else case ae_stemsDirHandle ae of
        None \<Rightarrow> Inr (selectStemDir, db)
      | Some stemsDirHandle \<Rightarrow>
          (case sd_queryPermission stemsDirHandle of
             None \<Rightarrow> Inr (selectStemDir, db)
           | Some stemDirAccess \<Rightarrow>
               if stemDirAccess \<noteq> granted then Inr (grantStemDirAccess, db)
               else if stemState = Some processingStems then Inr (processingStems, db)
               else case ae_trackName ae trackId of
                 None \<Rightarrow> Inr (getStems, db)
               | Some name \<Rightarrow>
                   if name = [] then Inr (getStems, db)
                   else case sd_entries stemsDirHandle (FILENAME name @ '' - stems'') of
                     None \<Rightarrow> Inr (getStems, db)
                   | Some None \<Rightarrow> Inl (ErrorHandler ''Error reading the stems directory'')
                   | Some (Some files) \<Rightarrow>
                       let m = localStems files (\<lambda>_. None)
                       in if count_keys m < 4 then Inr (getStems, db)
                          else Inr (ready, storeTrackCache trackId None (Some m) db)))"

definition validateTrackStemAccess ::
  "access_env \<Rightarrow> nat \<Rightarrow> stem_world \<Rightarrow> js_error + (StemState \<times> stem_world)"
where
  "validateTrackStemAccess ae trackId w =
     (if trackId = 0 then Inl (ErrorHandler ''No Track id provided for stems'')
      else
        let stemState = (case sw_audioState w trackId of None \<Rightarrow> None | Some e \<Rightarrow> se_stemState e)
        in case checkAccess ae trackId stemState (sw_trackCache w) of
             Inl e \<Rightarrow> Inl e
           | Inr (accessState, db) \<Rightarrow>
               let w1 = w\<lparr> sw_trackCache := db \<rparr>;
                   w2 = (if accessState = ready
                         then w1\<lparr> sw_stemsAnalyzing := sw_stemsAnalyzing w1 - {trackId} \<rparr>
                         else w1);
                   w3 = (case sw_audioState w2 trackId of
                           None \<Rightarrow> w2
                         | Some e \<Rightarrow>
                             if stemState \<noteq> Some accessState
                             then w2\<lparr> sw_audioState :=
                                       (sw_audioState w2)(trackId \<mapsto> e\<lparr> se_stemState := Some accessState \<rparr>) \<rparr>
                             else w2)
               in Inr (accessState, w3))"

subsection \<open>Generation: \<^verbatim>\<open>stemAudio\<close>\<close>

datatype head_response = Status nat | FetchFails

text \<open>
  What the separation service and the file system answer during a generation: whether a
  stems directory is granted, whether the upload succeeds, the size of the track, the
  answers to the status polls in order, the blob fetched for a stem (none when the fetch
  fails), whether the track's directory can be made, and whether a stem file can be
  written.
\<close>

record stem_service =
  sv_dirHandle :: bool
  sv_putOk :: bool
  sv_size :: "real option"
  sv_heads :: "head_response list"
  sv_stemFetch :: "stem \<Rightarrow> blob option"
  sv_mkdirOk :: bool
  sv_writeOk :: "stem \<Rightarrow> bool"

text \<open>
  How the wait for the stems ends.  On status 202 the poll is repeated.  On 200 the four
  stems are fetched, and a stem that cannot be fetched rejects the wait.  On 500, on an
  unexpected status and when the poll itself fails, the exception is raised inside the
  polling function, the promise the caller awaits is never settled, and the caller hangs;
  in the first two cases the phase has been set to error before.  A model poll list that
  runs out is a wait that has not ended.
\<close>

datatype wait_result =
    Resolved
  | Rejected js_error
  | HangsAfterError string
  | Hangs
  | StillPolling

fun waitForStems :: "(stem \<Rightarrow> blob option) \<Rightarrow> head_response list \<Rightarrow> wait_result" where
  "waitForStems fetchStem [] = StillPolling"
| "waitForStems fetchStem (FetchFails # rest) = Hangs"
| "waitForStems fetchStem (Status n # rest) =
     (if n = 202 then waitForStems fetchStem rest
      else if n = 500 then HangsAfterError ''Error generating stems''
      else if n = 200
      then (if \<exists>s \<in> set STEMS. fetchStem s = None then Rejected (Error ''response text'')
            else Resolved)
      else HangsAfterError ''Unexpected server response'')"

datatype outcome = Returned | Threw js_error | NeverReturns

definition set_stemState :: "nat \<Rightarrow> StemState \<Rightarrow> stem_world \<Rightarrow> stem_world" where
  "set_stemState i st w =
     w\<lparr> sw_audioState :=
          (sw_audioState w)(i := map_option (\<lambda>e. e\<lparr> se_stemState := Some st \<rparr>) (sw_audioState w i)) \<rparr>"

definition set_stemTimer :: "nat \<Rightarrow> real \<Rightarrow> stem_world \<Rightarrow> stem_world" where
  "set_stemTimer i x w =
     w\<lparr> sw_audioState :=
          (sw_audioState w)(i := map_option (\<lambda>e. e\<lparr> se_stemTimer := Some x \<rparr>) (sw_audioState w i)) \<rparr>"

text \<open>
  The loop that writes the stem files and stores each stem in the cache, one call of
  \<^verbatim>\<open>storeTrackCache\<close> for every stem.  When a write fails the loop ends with the
  exception, and the stems stored before stay in the cache.
\<close>

fun store_stems ::
  "stem_service \<Rightarrow> nat \<Rightarrow> stem list \<Rightarrow> (nat \<times> track_cache) list
     \<Rightarrow> js_error option \<times> (nat \<times> track_cache) list"
where
  "store_stems sv i [] db = (None, db)"
| "store_stems sv i (s # ss) db =
     (if \<not> sv_writeOk sv s then (Some (ErrorHandler ''Error storing stem file''), db)
      else store_stems sv i ss
             (storeTrackCache i None
                (Some ((\<lambda>_. None)(s \<mapsto> \<lparr> sf_file = sv_stemFetch sv s \<rparr>))) db))"

definition stemAudio :: "stem_service \<Rightarrow> nat \<Rightarrow> stem_world \<Rightarrow> outcome \<times> stem_world" where
  "stemAudio sv trackId w =
     (if (case map_of (sw_trackCache w) trackId of None \<Rightarrow> None | Some c \<Rightarrow> tc_file c) = None
      then (Threw (ErrorHandler ''No file found for track, try re-adding it.''), w)
      else if \<not> sv_dirHandle sv
      then (Threw (ErrorHandler ''Permission to the file or folder was denied.''), w)
      else if sw_audioState w trackId = None then (Threw TypeError, w)
      else
        let w1 = set_stemTimer trackId 100 (set_stemState trackId uploadingFile w);
            w2 = w1\<lparr> sw_uploads := sw_uploads w1 @ [trackId] \<rparr>
        in if \<not> sv_putOk sv
           then (Threw (ErrorHandler ''Error generating stems: Error uploading file for stem processing''),
                 set_stemState trackId error w2)
           else
             let w3 = set_stemTimer trackId (js_or_num (sv_size sv) 1 / 1000 * 0.02) w2;
                 w4 = set_stemState trackId processingStems w3
             in case waitForStems (sv_stemFetch sv) (sv_heads sv) of
                  StillPolling \<Rightarrow> (NeverReturns, w4)
                | Hangs \<Rightarrow> (NeverReturns, w4)
                | HangsAfterError msg \<Rightarrow> (NeverReturns, set_stemState trackId error w4)
                | Rejected e \<Rightarrow> (Threw e, w4)
                | Resolved \<Rightarrow>
                    let w5 = set_stemState trackId downloadingStems w4
                    in if \<not> sv_mkdirOk sv
                       then (Threw (ErrorHandler ''Error creating directory for stems.''), w5)
                       else case store_stems sv trackId STEMS (sw_trackCache w5) of
                              (Some e, db) \<Rightarrow> (Threw e, w5\<lparr> sw_trackCache := db \<rparr>)
                            | (None, db) \<Rightarrow>
                                (Returned,
                                 set_stemState trackId ready (w5\<lparr> sw_trackCache := db \<rparr>)))"

subsection \<open>Notions used to state the lifecycle's properties\<close>

text \<open>The stems map cached for a track, if any.\<close>

definition cached_stems :: "(nat \<times> track_cache) list \<Rightarrow> nat \<Rightarrow> (stem \<Rightarrow> stem_file option) option" where
  "cached_stems db i = (case map_of db i of None \<Rightarrow> None | Some c \<Rightarrow> tc_stems c)"

text \<open>The cache has the stem for the track.\<close>

definition has_stem :: "(nat \<times> track_cache) list \<Rightarrow> nat \<Rightarrow> stem \<Rightarrow> bool" where
  "has_stem db i s = (\<exists>m. cached_stems db i = Some m \<and> m s \<noteq> None)"

text \<open>A stems map is whole when it is empty or has all four stems.\<close>

definition whole :: "(stem \<Rightarrow> stem_file option) \<Rightarrow> bool" where
  "whole m = ((\<forall>s. m s = None) \<or> (\<forall>s. m s \<noteq> None))"

definition cache_whole :: "(nat \<times> track_cache) list \<Rightarrow> bool" where
  "cache_whole db = (\<forall>j m. cached_stems db j = Some m \<longrightarrow> whole m)"

section \<open>Concrete inputs\<close>

text \<open>The inputs at which the theorems below are evaluated.\<close>

definition no_state :: track_state where
  "no_state = \<lparr> ts_adjustedBpm = None, ts_beatResolution = None, ts_mixpoint = None \<rparr>"


text \<open>A track whose tempo the analysis could not determine.\<close>

definition nobpm_track :: track where
  "nobpm_track =
     \<lparr> t_id = 2, t_name = ''b.mp3'', t_duration = Some 100, t_offset = Some 0,
       t_adjustedOffset = None, t_bpm = None \<rparr>"

text \<open>A track whose duration the analysis could not determine.\<close>

definition noduration_track :: track where
  "noduration_track =
     \<lparr> t_id = 3, t_name = ''c.mp3'', t_duration = None, t_offset = Some 0,
       t_adjustedOffset = None, t_bpm = Some 120 \<rparr>"

text \<open>
  A mix of two loaded tracks: track 1 has no stems and plays through its own player
  (handle 10); track 2 has the four stems with a player each (handles 21 to 24).
\<close>

definition example_waveform :: waveform where
  "example_waveform =
     \<lparr> wf_markers = Some [0, 0.5, 1, 1.5, 2], wf_skipLength = 0.5,
       wf_currentTime = 0.9, wf_playheadTime = 0 \<rparr>"

definition example_stems :: "stem \<Rightarrow> stem_audio option" where
  "example_stems s =
     Some \<lparr> sa_player = Some (case s of drums \<Rightarrow> 21 | bass \<Rightarrow> 22 | vocals \<Rightarrow> 23 | other \<Rightarrow> 24),
            sa_gainNode = Some 1, sa_volume = None, sa_volumeMeter = None, sa_mute = None \<rparr>"

definition track1 :: track_audio where
  "track1 = empty_audio\<lparr> ta_waveform := Some example_waveform, ta_player := Some 10,
                         ta_time := Some 0.9, ta_gainNode := Some 1 \<rparr>"

definition track2 :: track_audio where
  "track2 = empty_audio\<lparr> ta_waveform := Some example_waveform, ta_player := Some 20,
                         ta_stems := Some example_stems \<rparr>"

definition example_world :: world where
  "example_world =
     \<lparr> w_audioState = [(1, track1), (2, track2)], w_instant = 0, w_timers = [],
       w_nextTimer = 1, w_cmds = [] \<rparr>"

definition example_env :: env where
  "example_env =
     \<lparr> e_now = (\<lambda>i. 5 + real i), e_currentTime = (\<lambda>i. 4.9 + real i),
       e_adjustedBpm = (\<lambda>_. None), e_bpm = (\<lambda>_. None),
       e_mixTracks = Some [Some 1, Some 2] \<rparr>"


text \<open>
  The volume of the bass stem of track 2 is set to 0, the drums are soloed, and the solo
  is released again.
\<close>

definition bass_silenced :: world where
  "bass_silenced = stemVolume 2 bass 0 example_world"

definition drums_soloed :: world where
  "drums_soloed = stemSoloToggle 2 drums True bass_silenced"

definition solo_released :: world where
  "solo_released = stemSoloToggle 2 drums False drums_soloed"

text \<open>A channel with no listener, and the one after the waveform of track 1 has loaded.\<close>

definition empty_channel :: channel where
  "empty_channel = \<lparr> ch_listeners = [], ch_nextFn = 0 \<rparr>"

definition loaded_channel :: channel where
  "loaded_channel = on_event 1 (Callback 7) empty_channel"

text \<open>
  Track 1 during a generation, in a given phase: its file is cached, no stem is, and one
  upload has been made.
\<close>

definition generating :: "StemState \<Rightarrow> stem_world" where
  "generating ph =
     \<lparr> sw_audioState = (\<lambda>_. None)(1 \<mapsto> \<lparr> se_stemState = Some ph, se_stemTimer = Some 100 \<rparr>),
       sw_trackCache = [(1, \<lparr> tc_file = Some 5, tc_stems = None \<rparr>)],
       sw_stemsAnalyzing = {1},
       sw_uploads = [1] \<rparr>"

text \<open>A granted stems directory that has no directory for the track yet, and no directory at all.\<close>

definition example_access :: access_env where
  "example_access =
     \<lparr> ae_stemsDirHandle = Some \<lparr> sd_queryPermission = Some granted, sd_entries = (\<lambda>_. None) \<rparr>,
       ae_trackName = (\<lambda>_. Some ''song.mp3'') \<rparr>"

definition no_dir_access :: access_env where
  "no_dir_access = \<lparr> ae_stemsDirHandle = None, ae_trackName = (\<lambda>_. Some ''song.mp3'') \<rparr>"

text \<open>A granted stems directory that holds the four stem files of the track.\<close>

definition stems_on_disk :: access_env where
  "stems_on_disk =
     \<lparr> ae_stemsDirHandle =
         Some \<lparr> sd_queryPermission = Some granted,
                sd_entries = (\<lambda>_. None)(''song - stems'' \<mapsto>
                  Some [(''song - drums.mp3'', 31), (''song - bass.mp3'', 32),
                        (''song - vocals.mp3'', 33), (''song - other.mp3'', 34)]) \<rparr>,
       ae_trackName = (\<lambda>_. Some ''song.mp3'') \<rparr>"

text \<open>A service that answers one poll with 202, the next with 200, and delivers every stem.\<close>

definition good_service :: stem_service where
  "good_service =
     \<lparr> sv_dirHandle = True, sv_putOk = True, sv_size = Some 4000000,
       sv_heads = [Status 202, Status 200],
       sv_stemFetch = (\<lambda>s. Some (case s of drums \<Rightarrow> 31 | bass \<Rightarrow> 32 | vocals \<Rightarrow> 33 | other \<Rightarrow> 34)),
       sv_mkdirOk = True, sv_writeOk = (\<lambda>_. True) \<rparr>"

section \<open>Verification of the beat grid\<close>

lemmas calc_eval =
  calcRegions_def resolveVals_def valsMissing_def truthy_def isNaN_Number_def
  spread_state_def spread_opt_def js_or_def js_or_num_def Let_def

text \<open>
  The backward loop returns for every positive beat interval: it subtracts the interval
  \<open>m\<close> times, each intermediate result is positive, and one more step would not be.
\<close>

lemma zeroTime_returns:
  assumes bi: "0 < bi"
  shows "\<exists>m. zeroTime s bi = Some (s - real m * bi)
            \<and> (\<forall>j<m. 0 < s - real (Suc j) * bi)
            \<and> \<not> 0 < s - real m * bi - bi"
proof (induction "nat \<lceil>s / bi\<rceil>" arbitrary: s rule: less_induct)
  case less
  show ?case
  proof (cases "0 < s - bi")
    case False
    then have "zeroTime s bi = Some s" by (subst zeroTime.simps) simp
    with False show ?thesis by (intro exI[of _ 0]) simp
  next
    case True
    have "(s - bi) / bi = s / bi - 1" using bi by (simp add: field_simps)
    moreover have "1 < s / bi" using True bi by (simp add: field_simps)
    ultimately have "nat \<lceil>(s - bi) / bi\<rceil> < nat \<lceil>s / bi\<rceil>" by linarith
    from less[OF this] obtain m where m:
      "zeroTime (s - bi) bi = Some (s - bi - real m * bi)"
      "\<forall>j<m. 0 < s - bi - real (Suc j) * bi"
      "\<not> 0 < s - bi - real m * bi - bi" by blast
    have z: "zeroTime s bi = Some (s - real (Suc m) * bi)"
      using True m(1) by (subst zeroTime.simps) (simp add: algebra_simps)
    have a: "\<forall>j<Suc m. 0 < s - real (Suc j) * bi"
    proof (intro allI impI)
      fix j assume "j < Suc m"
      show "0 < s - real (Suc j) * bi"
      proof (cases j)
        case 0 then show ?thesis using True by simp
      next
        case (Suc k)
        then have "k < m" using \<open>j < Suc m\<close> by simp
        with m(2) have "0 < s - bi - real (Suc k) * bi" by blast
        then show ?thesis using Suc by (simp add: algebra_simps)
      qed
    qed
    have b: "\<not> 0 < s - real (Suc m) * bi - bi" using m(3) by (simp add: algebra_simps)
    from z a b show ?thesis by blast
  qed
qed

text \<open>
  The forward loop returns for every positive step: it appends the regions that start at
  \<open>t + k * sk\<close> for exactly the \<open>k\<close> with \<open>t + k * sk < d\<close>, in order of \<open>k\<close>.
\<close>

lemma regionLoop_returns:
  assumes sk: "0 < sk"
  shows "\<exists>n. regionLoop t d sk acc
                = Some (acc @ map (\<lambda>k. mk_region (t + real k * sk) sk) [0..<n])
            \<and> (\<forall>k. k < n \<longleftrightarrow> t + real k * sk < d)"
proof (induction "nat \<lceil>(d - t) / sk\<rceil>" arbitrary: t acc rule: less_induct)
  case less
  show ?case
  proof (cases "t < d")
    case False
    then have "regionLoop t d sk acc = Some acc" by (subst regionLoop.simps) simp
    moreover have "\<forall>k. \<not> t + real k * sk < d"
    proof
      fix k have "0 \<le> real k * sk" using sk by simp
      then show "\<not> t + real k * sk < d" using False by linarith
    qed
    ultimately show ?thesis by (intro exI[of _ 0]) simp
  next
    case True
    have "(d - (t + sk)) / sk = (d - t) / sk - 1" using sk by (simp add: field_simps)
    moreover have "0 < (d - t) / sk" using True sk by simp
    ultimately have "nat \<lceil>(d - (t + sk)) / sk\<rceil> < nat \<lceil>(d - t) / sk\<rceil>" by linarith
    from less[OF this, of "acc @ [mk_region t sk]"] obtain n where n:
      "regionLoop (t + sk) d sk (acc @ [mk_region t sk]) =
         Some ((acc @ [mk_region t sk])
               @ map (\<lambda>k. mk_region (t + sk + real k * sk) sk) [0..<n])"
      "\<forall>k. k < n \<longleftrightarrow> t + sk + real k * sk < d" by blast
    have "map (\<lambda>k. mk_region (t + real k * sk) sk) [0..<Suc n] =
            mk_region t sk # map (\<lambda>k. mk_region (t + sk + real k * sk) sk) [0..<n]"
      by (simp add: upt_rec[of 0 "Suc n"] map_Suc_upt[symmetric] algebra_simps del: upt_Suc)
    then have z: "regionLoop t d sk acc
                    = Some (acc @ map (\<lambda>k. mk_region (t + real k * sk) sk) [0..<Suc n])"
      using True n(1) by (subst regionLoop.simps) simp
    have a: "\<forall>k. k < Suc n \<longleftrightarrow> t + real k * sk < d"
    proof
      fix k show "k < Suc n \<longleftrightarrow> t + real k * sk < d"
      proof (cases k)
        case 0 then show ?thesis using True by simp
      next
        case (Suc j)
        then show ?thesis using n(2)[rule_format, of j] by (simp add: algebra_simps)
      qed
    qed
    from z a show ?thesis by blast
  qed
qed

lemma resolution_num_pos: "0 < resolution_num r"
  by (cases r) simp_all

text \<open>
  With a truthy duration and a positive effective tempo the calculation returns, and its
  result is the grid: \<open>m\<close> backward steps from the effective offset, then \<open>n\<close> regions.
\<close>

lemma calcRegions_grid:
  assumes rv: "resolveVals analyzeTracks tr = Inr (Some d, bpm, offset)"
    and d: "d \<noteq> 0"
    and st: "st = spread_state prev partial"
    and b: "b = js_or_num (js_or (ts_adjustedBpm st) bpm) 1" "0 < b"
    and off: "off = js_or_num (js_or (t_adjustedOffset tr) offset) 0"
    and r: "r = resolution_num (case ts_beatResolution st of None \<Rightarrow> Quarter | Some x \<Rightarrow> x)"
  shows "\<exists>m n res. calcRegions analyzeTracks prev tr partial = Some (Inr res)
     \<and> cr_skipLength res = 60 / b * (1 / r)
     \<and> map r_start (cr_regions res)
         = map (\<lambda>k. (off - real m * (60 / b)) + real k * (60 / b * (1 / r))) [0..<n]
     \<and> (\<forall>j<m. 0 < off - real (Suc j) * (60 / b))
     \<and> \<not> 0 < off - real m * (60 / b) - 60 / b
     \<and> (\<forall>k. k < n \<longleftrightarrow> (off - real m * (60 / b)) + real k * (60 / b * (1 / r)) < d)"
proof -
  let ?bi = "60 / b" and ?sk = "60 / b * (1 / r)"
  have rpos: "0 < r" unfolding r by (rule resolution_num_pos)
  have bi: "0 < ?bi" using b(2) by simp
  have sk: "0 < ?sk" using bi rpos by simp
  from zeroTime_returns[OF bi, of off] obtain m where m:
    "zeroTime off ?bi = Some (off - real m * ?bi)"
    "\<forall>j<m. 0 < off - real (Suc j) * ?bi"
    "\<not> 0 < off - real m * ?bi - ?bi" by blast
  let ?z = "off - real m * ?bi"
  from regionLoop_returns[OF sk, of ?z d "[]"] obtain n where n:
    "regionLoop ?z d ?sk [] = Some ([] @ map (\<lambda>k. mk_region (?z + real k * ?sk) ?sk) [0..<n])"
    "\<forall>k. k < n \<longleftrightarrow> ?z + real k * ?sk < d" by blast
  have dt: "truthy (Some d)" using d by (simp add: truthy_def)
  have "calcRegions analyzeTracks prev tr partial = Some (Inr
     \<lparr> cr_duration = Some d, cr_adjustedBpm = ts_adjustedBpm st, cr_skipLength = ?sk,
       cr_beatResolution = (case ts_beatResolution st of None \<Rightarrow> Quarter | Some x \<Rightarrow> x),
       cr_regions = map (\<lambda>k. mk_region (?z + real k * ?sk) ?sk) [0..<n],
       cr_mixpoint = ts_mixpoint st \<rparr>)"
    unfolding calcRegions_def rv using dt m(1) n(1)
    by (simp add: Let_def st[symmetric] b(1)[symmetric] off[symmetric] r[symmetric])
  moreover have "map r_start (map (\<lambda>k. mk_region (?z + real k * ?sk) ?sk) [0..<n])
      = map (\<lambda>k. ?z + real k * ?sk) [0..<n]"
    by (simp add: mk_region_def comp_def)
  ultimately show ?thesis using m(2,3) n(2) by (intro exI[of _ m] exI[of _ n]) simp
qed




subsection \<open>Missing values\<close>


lemma calcRegions_no_bpm_example:
  "calcRegions (\<lambda>ts. ts) no_state nobpm_track no_state
     = Some (Inr \<lparr> cr_duration = Some 100, cr_adjustedBpm = None, cr_skipLength = 240,
                   cr_beatResolution = Quarter, cr_regions = [mk_region 0 240],
                   cr_mixpoint = None \<rparr>)"
  by (simp add: calc_eval nobpm_track_def no_state_def zeroTime.simps regionLoop.simps)

text \<open>
  Claim C7 as stated fails: for a track whose tempo is still absent after the analysis
  attempt the calculation raises no error and returns a marker sequence, computed at the
  fallback tempo of 1 beat per minute.
\<close>

theorem calcRegions_missing_bpm_counterexample:
  "resolveVals (\<lambda>ts. ts) nobpm_track = Inr (Some 100, None, Some 0)
   \<and> calcRegions (\<lambda>ts. ts) no_state nobpm_track no_state
       = Some (Inr \<lparr> cr_duration = Some 100, cr_adjustedBpm = None, cr_skipLength = 240,
                     cr_beatResolution = Quarter, cr_regions = [mk_region 0 240],
                     cr_mixpoint = None \<rparr>)"
  by (simp add: calcRegions_no_bpm_example)
     (simp add: resolveVals_def valsMissing_def truthy_def isNaN_Number_def nobpm_track_def)

lemma js_or_None: "js_or_num (js_or a None) d = js_or_num a d"
  by (cases a) (simp_all add: js_or_def js_or_num_def truthy_def)

text \<open>
  Claim C7, amended.  After the analysis attempt, the calculation fails with the
  validation error exactly when the duration is absent or zero: a falsy duration gives
  the error, and a truthy one never does.  An absent bpm raises no error: the beat
  interval is computed from the adjusted bpm if one is set and from 1 otherwise, and a
  marker sequence is returned (for a positive tempo).
\<close>

theorem calcRegions_validation:
  assumes rv: "resolveVals analyzeTracks tr = Inr (duration, bpm, offset)"
  shows "(\<not> truthy duration \<longrightarrow>
            calcRegions analyzeTracks prev tr partial
              = Some (Inl (ErrorHandler (''Please try adding '' @ t_name tr @ '' again.''))))
       \<and> (truthy duration \<longrightarrow> (\<forall>e. calcRegions analyzeTracks prev tr partial \<noteq> Some (Inl e)))
       \<and> (truthy duration \<and> bpm = None
            \<and> 0 < js_or_num (ts_adjustedBpm (spread_state prev partial)) 1 \<longrightarrow>
            (\<exists>res. calcRegions analyzeTracks prev tr partial = Some (Inr res)
               \<and> cr_skipLength res
                   = 60 / js_or_num (ts_adjustedBpm (spread_state prev partial)) 1
                     * (1 / resolution_num (cr_beatResolution res))))"
proof (intro conjI impI)
  assume "\<not> truthy duration"
  then show "calcRegions analyzeTracks prev tr partial
              = Some (Inl (ErrorHandler (''Please try adding '' @ t_name tr @ '' again.'')))"
    by (simp add: calcRegions_def rv)
next
  assume "truthy duration"
  then show "\<forall>e. calcRegions analyzeTracks prev tr partial \<noteq> Some (Inl e)"
    by (simp add: calcRegions_def rv Let_def split: option.splits)
next
  assume h: "truthy duration \<and> bpm = None
            \<and> 0 < js_or_num (ts_adjustedBpm (spread_state prev partial)) 1"
  then obtain d where d: "duration = Some d" "d \<noteq> 0"
    by (cases duration) (simp_all add: truthy_def)
  let ?st = "spread_state prev partial"
  let ?b = "js_or_num (js_or (ts_adjustedBpm ?st) bpm) 1"
  have b: "?b = js_or_num (ts_adjustedBpm ?st) 1" using h by (simp add: js_or_None)
  have bpos: "0 < ?b" using h b by simp
  from calcRegions_grid[OF rv[unfolded d(1)] d(2) refl refl bpos refl refl]
  obtain res where res: "calcRegions analyzeTracks prev tr partial = Some (Inr res)"
    "cr_skipLength res = 60 / ?b * (1 / resolution_num (case ts_beatResolution ?st of None \<Rightarrow> Quarter | Some x \<Rightarrow> x))"
    by blast
  have "cr_beatResolution res = (case ts_beatResolution ?st of None \<Rightarrow> Quarter | Some x \<Rightarrow> x)"
    using res(1) d by (simp add: calcRegions_def rv truthy_def Let_def split: option.splits) auto
  with res b show "\<exists>res. calcRegions analyzeTracks prev tr partial = Some (Inr res)
               \<and> cr_skipLength res
                   = 60 / js_or_num (ts_adjustedBpm (spread_state prev partial)) 1
                     * (1 / resolution_num (cr_beatResolution res))"
    by simp
qed

text \<open>
  Both cases occur: a track without duration gives the error, a track without bpm a grid.
\<close>

theorem calcRegions_validation_witness:
  "calcRegions (\<lambda>ts. ts) no_state noduration_track no_state
     = Some (Inl (ErrorHandler ''Please try adding c.mp3 again.''))
   \<and> (\<exists>res. calcRegions (\<lambda>ts. ts) no_state nobpm_track no_state = Some (Inr res)
         \<and> cr_skipLength res = 60 / 1 * (1 / resolution_num (cr_beatResolution res)))"
proof -
  have 1: "resolveVals (\<lambda>ts. ts) noduration_track = Inr (None, Some 120, Some 0)"
    by (simp add: resolveVals_def valsMissing_def truthy_def isNaN_Number_def noduration_track_def)
  have 2: "resolveVals (\<lambda>ts. ts) nobpm_track = Inr (Some 100, None, Some 0)"
    by (simp add: resolveVals_def valsMissing_def truthy_def isNaN_Number_def nobpm_track_def)
  show ?thesis
    using calcRegions_validation[OF 1, of no_state no_state]
          calcRegions_validation[OF 2, of no_state no_state]
    by (simp add: truthy_def noduration_track_def no_state_def spread_state_def spread_opt_def
        js_or_num_def)
qed


section \<open>Verification of the transport\<close>

subsection \<open>The store\<close>


lemma map_of_upd_entry:
  "map_of (upd_entry k f xs) k' =
     (if k' = k then Some (f (case map_of xs k of None \<Rightarrow> empty_audio | Some v \<Rightarrow> v))
      else map_of xs k')"
  by (induction xs) auto

lemma get_track_set_track:
  "get_track (set_track i f w) j =
     (if j = i then Some (f (case get_track w i of None \<Rightarrow> empty_audio | Some t \<Rightarrow> t))
      else get_track w j)"
  by (simp add: get_track_def set_track_def map_of_upd_entry)

lemma set_track_fields [simp]:
  "w_cmds (set_track i f w) = w_cmds w"
  "w_instant (set_track i f w) = w_instant w"
  "w_timers (set_track i f w) = w_timers w"
  "w_nextTimer (set_track i f w) = w_nextTimer w"
  by (simp_all add: set_track_def)

lemma set_stem_fields [simp]:
  "w_cmds (set_stem i s f w) = w_cmds w"
  "w_instant (set_stem i s f w) = w_instant w"
  "w_timers (set_stem i s f w) = w_timers w"
  "w_nextTimer (set_stem i s f w) = w_nextTimer w"
  by (simp_all add: set_stem_def)

lemma clearInterval_fields [simp]:
  "w_cmds (clearInterval h w) = w_cmds w"
  "w_instant (clearInterval h w) = w_instant w"
  "w_audioState (clearInterval h w) = w_audioState w"
  "w_nextTimer (clearInterval h w) = w_nextTimer w"
  by (simp_all add: clearInterval_def split: option.splits)

lemma clearVolumeMeter_fields [simp]:
  "w_cmds (clearVolumeMeter i w) = w_cmds w"
  "w_instant (clearVolumeMeter i w) = w_instant w"
  "w_audioState (clearVolumeMeter i w) = w_audioState w"
  "w_nextTimer (clearVolumeMeter i w) = w_nextTimer w"
  by (simp_all add: clearVolumeMeter_def)

lemma get_track_clearVolumeMeter [simp]: "get_track (clearVolumeMeter i w) j = get_track w j"
  by (simp add: get_track_def)

lemma get_stems_clearVolumeMeter [simp]: "get_stems (clearVolumeMeter i w) j = get_stems w j"
  by (simp add: get_stems_def)


lemma starts_at_simps [simp]:
  "starts_at t0 []"
  "starts_at t0 (xs @ ys) = (starts_at t0 xs \<and> starts_at t0 ys)"
  by (fastforce simp: starts_at_def)+

lemma play_stem_starts: "starts_at t0 (play_stem t0 tm a b sa)"
  by (auto simp: starts_at_def play_stem_def split: option.splits)

lemma concat_starts: "(\<And>x. x \<in> set xs \<Longrightarrow> starts_at t0 (f x)) \<Longrightarrow> starts_at t0 (concat (map f xs))"
  by (induction xs) auto

lemma play_track_cmds:
  "\<exists>new. w_cmds (play_track ev t0 i p tm w) = w_cmds w @ new \<and> starts_at t0 new"
proof -
  let ?a = "e_adjustedBpm ev i"
  let ?b = "if truthy ?a then e_bpm ev i else None"
  let ?new = "case get_stems w i of
                Some m \<Rightarrow> concat (map (\<lambda>s. play_stem t0 tm ?a ?b (the (m s))) (stem_keys m))
              | None \<Rightarrow> [Start p t0 tm]"
  have "w_cmds (play_track ev t0 i p tm w) = w_cmds w @ ?new"
    by (simp add: play_track_def Let_def setInterval_def split: prod.splits)
  moreover have "starts_at t0 ?new"
  proof (cases "get_stems w i")
    case None
    then show ?thesis by (simp add: starts_at_def)
  next
    case (Some m)
    then show ?thesis by (simp add: concat_starts play_stem_starts)
  qed
  ultimately show ?thesis by blast
qed

lemma play_track_instant [simp]: "w_instant (play_track ev t0 i p tm w) = w_instant w"
  by (simp add: play_track_def Let_def setInterval_def split: prod.splits)

lemma play_loop_instant [simp]: "w_instant (play_loop ev t0 tid xs w) = w_instant w"
  by (induction xs arbitrary: w) auto

lemma set_STEMS [simp]: "set STEMS = UNIV"
proof -
  have "s \<in> set STEMS" for s by (cases s) (simp_all add: STEMS_def)
  then show ?thesis by blast
qed

lemma set_stem_keys [simp]: "set (stem_keys m) = {s. m s \<noteq> None}"
  by (simp add: stem_keys_def)

lemma get_stems_set_track_other:
  "(\<And>t. ta_stems (f t) = ta_stems t) \<Longrightarrow> get_stems (set_track i f w) j = get_stems w j"
  by (auto simp: get_stems_def get_track_set_track empty_audio_def split: option.splits)

lemma get_stems_cmds [simp]: "get_stems (w\<lparr>w_cmds := c\<rparr>) j = get_stems w j"
  by (simp add: get_stems_def get_track_def)

lemma get_stems_setInterval [simp]: "get_stems (snd (setInterval i w)) j = get_stems w j"
  by (simp add: get_stems_def get_track_def setInterval_def)

lemma get_stems_play_track [simp]: "get_stems (play_track ev t0 i p tm w) j = get_stems w j"
proof -
  have "get_stems (w1\<lparr>w_timers := a, w_nextTimer := b\<rparr>) j = get_stems w1 j" for w1 a b
    by (simp add: get_stems_def get_track_def)
  then show ?thesis
    by (simp add: play_track_def Let_def setInterval_def get_stems_set_track_other)
qed

lemma play_track_new:
  "w_cmds (play_track ev t0 i p tm w) = w_cmds w @
     (case get_stems w i of
        Some m \<Rightarrow> concat (map (\<lambda>s. play_stem t0 tm (e_adjustedBpm ev i)
                     (if truthy (e_adjustedBpm ev i) then e_bpm ev i else None) (the (m s))) (stem_keys m))
      | None \<Rightarrow> [Start p t0 tm])"
  by (simp add: play_track_def Let_def setInterval_def split: prod.splits)

lemma play_track_starts:
  assumes "get_stems w i = ta_stems t" "ta_player t = Some p"
  shows "track_starts t0 t \<subseteq> set (drop (length (w_cmds w)) (w_cmds (play_track ev t0 i p (ta_time t) w)))"
proof (cases "ta_stems t")
  case None
  then show ?thesis using assms by (simp add: play_track_new track_starts_def)
next
  case (Some m)
  have "Start q t0 (ta_time t) \<in> set (concat (map (\<lambda>s. play_stem t0 (ta_time t) a b (the (m s))) (stem_keys m)))"
    if "m s = Some sa" "sa_player sa = Some q" for q s sa a b
    using that by (auto simp: play_stem_def intro!: bexI[of _ s])
  then show ?thesis using assms Some by (auto simp: play_track_new track_starts_def)
qed

lemma play_loop_new:
  "\<exists>new. w_cmds (play_loop ev t0 tid xs w) = w_cmds w @ new \<and> starts_at t0 new
      \<and> (\<forall>i t. (i, t) \<in> set xs \<and> eligible tid i t \<and> get_stems w i = ta_stems t
             \<longrightarrow> track_starts t0 t \<subseteq> set new)"
proof (induction xs arbitrary: w)
  case Nil
  then show ?case by simp
next
  case (Cons x xs)
  obtain i t where x: "x = (i, t)" by (cases x)
  show ?case
  proof (cases "eligible tid i t")
    case False
    then have "play_loop ev t0 tid (x # xs) w = play_loop ev t0 tid xs w"
      by (auto simp: x eligible_def)
    moreover from Cons.IH[of w] obtain new where new:
      "w_cmds (play_loop ev t0 tid xs w) = w_cmds w @ new" "starts_at t0 new"
      "\<forall>i t. (i, t) \<in> set xs \<and> eligible tid i t \<and> get_stems w i = ta_stems t
             \<longrightarrow> track_starts t0 t \<subseteq> set new" by blast
    ultimately show ?thesis using False by (intro exI[of _ new]) (auto simp: x)
  next
    case True
    then obtain p where p: "ta_player t = Some p" by (auto simp: eligible_def)
    let ?w1 = "play_track ev t0 i p (ta_time t) w"
    have step: "play_loop ev t0 tid (x # xs) w = play_loop ev t0 tid xs ?w1"
      using True p by (auto simp: x eligible_def)
    obtain n1 where n1: "w_cmds ?w1 = w_cmds w @ n1" "starts_at t0 n1"
      using play_track_cmds by blast
    from Cons.IH[of ?w1] obtain n2 where n2:
      "w_cmds (play_loop ev t0 tid xs ?w1) = w_cmds ?w1 @ n2" "starts_at t0 n2"
      "\<forall>i t. (i, t) \<in> set xs \<and> eligible tid i t \<and> get_stems ?w1 i = ta_stems t
             \<longrightarrow> track_starts t0 t \<subseteq> set n2" by blast
    have a: "w_cmds (play_loop ev t0 tid (x # xs) w) = w_cmds w @ (n1 @ n2)"
      using step n1(1) n2(1) by simp
    have b: "starts_at t0 (n1 @ n2)" using n1(2) n2(2) by simp
    have c: "track_starts t0 t' \<subseteq> set (n1 @ n2)"
      if h: "(j, t') \<in> set (x # xs)" "eligible tid j t'" "get_stems w j = ta_stems t'" for j t'
    proof (cases "(j, t') = (i, t)")
      case True
      then have "track_starts t0 t' \<subseteq> set n1"
        using play_track_starts[of w i t p t0 ev] h(3) p n1(1) by simp
      then show ?thesis by auto
    next
      case False
      then have "(j, t') \<in> set xs" using h(1) x by auto
      then have "track_starts t0 t' \<subseteq> set n2" using n2(3) h(2,3) by simp
      then show ?thesis by auto
    qed
    from a b c show ?thesis by blast
  qed
qed

text \<open>
  Claim C1.  A call of play, with or without a track id, reads the shared clock exactly
  once (the count of reads grows by one), before the loop over the tracks.  Every start
  the call schedules, for a track-level player or for the player of a stem, is scheduled
  at the value of that one read; and every track the call does not skip gets its starts:
  its own player when it has no stems, one player per stem when it has.
\<close>

theorem play_single_clock_read:
  "w_instant (play ev trackId w) = Suc (w_instant w)
   \<and> (\<exists>new. w_cmds (play ev trackId w) = w_cmds w @ new
         \<and> (\<forall>p t tm. Start p t tm \<in> set new \<longrightarrow> t = e_now ev (w_instant w))
         \<and> (\<forall>i t. get_track w i = Some t \<and> eligible trackId i t
               \<longrightarrow> track_starts (e_now ev (w_instant w)) t \<subseteq> set new))"
proof -
  let ?w1 = "w\<lparr>w_instant := Suc (w_instant w)\<rparr>"
  let ?t0 = "e_now ev (w_instant w)"
  from play_loop_new[of ev ?t0 trackId "w_audioState w" ?w1] obtain new where new:
    "w_cmds (play_loop ev ?t0 trackId (w_audioState w) ?w1) = w_cmds ?w1 @ new"
    "starts_at ?t0 new"
    "\<forall>i t. (i, t) \<in> set (w_audioState w) \<and> eligible trackId i t \<and> get_stems ?w1 i = ta_stems t
             \<longrightarrow> track_starts ?t0 t \<subseteq> set new" by blast
  have "track_starts ?t0 t \<subseteq> set new" if "get_track w i = Some t" "eligible trackId i t" for i t
  proof -
    have "(i, t) \<in> set (w_audioState w)" using that(1) by (simp add: get_track_def map_of_SomeD)
    moreover have "get_stems ?w1 i = ta_stems t" using that(1) by (simp add: get_stems_def get_track_def)
    ultimately show ?thesis using new(3) that(2) by blast
  qed
  moreover have "w_cmds (play ev trackId w) = w_cmds w @ new"
    using new(1) by (simp add: play_def Let_def)
  moreover have "\<forall>p t tm. Start p t tm \<in> set new \<longrightarrow> t = ?t0"
    using new(2) by (simp add: starts_at_def)
  moreover have "w_instant (play ev trackId w) = Suc (w_instant w)"
    by (simp add: play_def Let_def)
  ultimately show ?thesis by blast
qed

text \<open>
  On the example mix a call without track id starts the player of track 1 and the
  players of the stems of track 2, all at the one reading 5 of the clock.
\<close>

theorem play_single_clock_read_witness:
  "w_instant (play example_env None example_world) = 1
   \<and> (\<exists>new. w_cmds (play example_env None example_world) = new
         \<and> Start 10 5 (Some 0.9) \<in> set new
         \<and> Start 21 5 None \<in> set new
         \<and> Start 24 5 None \<in> set new)"
proof -
  from play_single_clock_read[of example_env None example_world] obtain new where new:
    "w_instant (play example_env None example_world) = Suc (w_instant example_world)"
    "w_cmds (play example_env None example_world) = w_cmds example_world @ new"
    "\<forall>i t. get_track example_world i = Some t \<and> eligible None i t
        \<longrightarrow> track_starts (e_now example_env (w_instant example_world)) t \<subseteq> set new"
    by blast
  have t0: "e_now example_env (w_instant example_world) = 5"
    by (simp add: example_env_def example_world_def)
  have g1: "get_track example_world 1 = Some track1 \<and> eligible None 1 track1"
    by (simp add: get_track_def example_world_def eligible_def track1_def truthy_id_def)
  have g2: "get_track example_world 2 = Some track2 \<and> eligible None 2 track2"
    by (simp add: get_track_def example_world_def eligible_def track2_def truthy_id_def)
  have s1: "Start 10 5 (Some 0.9) \<in> track_starts 5 track1"
    by (simp add: track_starts_def track1_def empty_audio_def)
  have s2: "Start 21 5 None \<in> track_starts 5 track2" "Start 24 5 None \<in> track_starts 5 track2"
    by (auto simp: track_starts_def track2_def empty_audio_def example_stems_def
             intro: exI[of _ drums] exI[of _ other])
  have "track_starts 5 track1 \<subseteq> set new" "track_starts 5 track2 \<subseteq> set new"
    using new(3) g1 g2 t0 by auto
  with s1 s2 have "Start 10 5 (Some 0.9) \<in> set new" "Start 21 5 None \<in> set new"
    "Start 24 5 None \<in> set new" by auto
  moreover have "w_instant (play example_env None example_world) = 1"
    using new(1) by (simp add: example_world_def)
  moreover have "w_cmds (play example_env None example_world) = new"
    using new(2) by (simp add: example_world_def)
  ultimately show ?thesis by blast
qed

subsection \<open>pause\<close>

lemma cur_track_set_track:
  "cur_track (set_track i f w) j = (if j = i then f (cur_track w i) else cur_track w j)"
  by (simp add: cur_track_def get_track_set_track)

lemma get_track_set_track_same: "get_track (set_track i f w) i = Some (f (cur_track w i))"
  by (simp add: cur_track_def get_track_set_track)

lemma cur_track_stop_player [simp]: "cur_track (stop_player ev p w) j = cur_track w j"
  by (simp add: cur_track_def get_track_def stop_player_def)

lemma get_track_stop_player [simp]: "get_track (stop_player ev p w) j = get_track w j"
  by (simp add: get_track_def stop_player_def)

lemma stop_player_fields [simp]:
  "w_timers (stop_player ev p w) = w_timers w"
  "w_instant (stop_player ev p w) = Suc (w_instant w)"
  "w_cmds (stop_player ev p w) = w_cmds w @ [Stop p (e_currentTime ev (w_instant w) + 0.1)]"
  by (simp_all add: stop_player_def)

lemma cur_track_set_stem:
  "cur_track (set_stem i s (\<lambda>a. a\<lparr> sa_volumeMeter := Some 0 \<rparr>) w) j
     = (if j = i then zero_meters {s} (cur_track w i) else cur_track w j)"
  by (auto simp: set_stem_def cur_track_set_track zero_meters_def Let_def fun_eq_iff
           intro!: arg_cong[where f="\<lambda>m. t\<lparr>ta_stems := Some m\<rparr>" for t])

lemma zero_meters_insert:
  "zero_meters S (zero_meters {s} t) = zero_meters (insert s S) t"
  by (auto simp: zero_meters_def fun_eq_iff intro!: arg_cong[where f="\<lambda>m. t\<lparr>ta_stems := Some m\<rparr>" for t])

lemma pause_stems_cur:
  "cur_track (pause_stems ev i m ss w) j
     = (if j = i then zero_meters (set ss) (cur_track w i) else cur_track w j)"
proof (induction ss arbitrary: w)
  case Nil
  then show ?case by (simp add: zero_meters_def)
next
  case (Cons s ss)
  show ?case
    by (cases "sa_player (the (m s))")
       (simp_all add: Cons.IH Let_def cur_track_set_stem zero_meters_insert)
qed

lemma pause_stems_timers [simp]: "w_timers (pause_stems ev i m ss w) = w_timers w"
  by (induction ss arbitrary: w) (auto simp: Let_def split: option.splits)

lemma released_simps [simp]:
  "released ev lo []"
  "released ev lo (xs @ ys) = (released ev lo xs \<and> released ev lo ys)"
  by (fastforce simp: released_def)+







lemma extends_same:
  "w_cmds w' = w_cmds w \<Longrightarrow> w_instant w' = w_instant w \<Longrightarrow> extends ev w w' []"
  by (simp add: extends_def)




lemma cur_track_clearVolumeMeter [simp]: "cur_track (clearVolumeMeter i w) j = cur_track w j"
  by (simp add: cur_track_def)

lemma zero_meters_fields [simp]:
  "ta_volumeMeterInterval (zero_meters S t) = ta_volumeMeterInterval t"
  "ta_player (zero_meters S t) = ta_player t"
  by (simp_all add: zero_meters_def)

lemma zero_meters_empty [simp]: "zero_meters {} t = t"
  by (simp add: zero_meters_def)

lemma pause_track_w1_cur:
  "cur_track (case get_stems w i of None \<Rightarrow> w | Some m \<Rightarrow> pause_stems ev i m (stem_keys m) w) j
     = (if j = i then zero_meters (stem_set w i) (cur_track w i) else cur_track w j)"
  by (cases "get_stems w i") (simp_all add: stem_set_def pause_stems_cur)

lemma pause_track_cur:
  "cur_track (pause_track ev i w) j
     = (if j = i then pause_entry (stem_set w i) (cur_track w i) else cur_track w j)"
  unfolding pause_track_def Let_def
  by (simp add: cur_track_set_track pause_track_w1_cur pause_entry_def)

lemma pause_track_get_same:
  "get_track (pause_track ev i w) i = Some (pause_entry (stem_set w i) (cur_track w i))"
proof -
  have "get_track (pause_track ev i w) i = Some (cur_track (pause_track ev i w) i)"
    unfolding pause_track_def Let_def by (simp add: get_track_set_track_same cur_track_set_track)
  then show ?thesis by (simp add: pause_track_cur)
qed


lemma interval_cur_track:
  "(case get_track w i of None \<Rightarrow> None | Some t \<Rightarrow> ta_volumeMeterInterval t)
     = ta_volumeMeterInterval (cur_track w i)"
  by (simp add: cur_track_def empty_audio_def split: option.splits)

lemma pause_track_timers:
  "w_timers (pause_track ev i w)
     = (case ta_volumeMeterInterval (cur_track w i) of
          None \<Rightarrow> w_timers w
        | Some x \<Rightarrow> filter (\<lambda>(h', _). h' \<noteq> x) (w_timers w))"
proof -
  let ?w1 = "case get_stems w i of None \<Rightarrow> w | Some m \<Rightarrow> pause_stems ev i m (stem_keys m) w"
  have t: "w_timers ?w1 = w_timers w" by (cases "get_stems w i") simp_all
  have c: "ta_volumeMeterInterval (cur_track ?w1 i) = ta_volumeMeterInterval (cur_track w i)"
    by (simp add: pause_track_w1_cur)
  have "w_timers (pause_track ev i w) = w_timers (clearVolumeMeter i ?w1)"
    unfolding pause_track_def Let_def by simp
  also have "\<dots> = (case ta_volumeMeterInterval (cur_track ?w1 i) of
          None \<Rightarrow> w_timers ?w1
        | Some x \<Rightarrow> filter (\<lambda>(h', _). h' \<noteq> x) (w_timers ?w1))"
    by (simp add: clearVolumeMeter_def interval_cur_track clearInterval_def split: option.splits)
  finally show ?thesis by (simp only: t c)
qed

lemma pause_track_timers_subset: "set (w_timers (pause_track ev i w)) \<subseteq> set (w_timers w)"
  by (auto simp: pause_track_timers split: option.splits)

lemma pause_track_paused:
  assumes "timer_recorded w i"
  shows "paused (pause_track ev i w) i"
proof -
  let ?t = "pause_entry (stem_set w i) (cur_track w i)"
  have "(h, i) \<notin> set (w_timers (pause_track ev i w))" for h
    using assms by (auto simp: pause_track_timers timer_recorded_def split: option.splits)
  moreover have "sa_volumeMeter a = Some 0" if "ta_stems ?t = Some m" "m s = Some a" for m s a
  proof (cases "get_stems w i")
    case None
    then have "ta_stems (cur_track w i) = None"
      by (simp add: get_stems_def cur_track_def empty_audio_def split: option.splits)
    with None that show ?thesis by (simp add: pause_entry_def stem_set_def)
  next
    case (Some m0)
    then have m0: "ta_stems (cur_track w i) = Some m0"
      by (simp add: get_stems_def cur_track_def split: option.splits)
    show ?thesis
    proof (cases "{s. m0 s \<noteq> None} = {}")
      case True
      then have "m = m0" using that(1) Some m0 by (simp add: pause_entry_def stem_set_def)
      with True that(2) show ?thesis by auto
    next
      case False
      then show ?thesis using that Some m0
        by (auto simp: pause_entry_def stem_set_def zero_meters_def split: if_splits)
    qed
  qed
  ultimately show ?thesis
    unfolding paused_def by (simp add: pause_track_get_same) (auto simp: pause_entry_def)
qed

lemma timer_recorded_pause_other:
  assumes "timer_recorded w i" "j \<noteq> i"
  shows "timer_recorded (pause_track ev j w) i"
  using assms pause_track_timers_subset[of ev j w]
  by (auto simp: timer_recorded_def pause_track_cur)

lemma paused_timer_recorded: "paused w i \<Longrightarrow> timer_recorded w i"
  by (auto simp: paused_def timer_recorded_def)






lemma stem_players_zero_meters [simp]:
  "stem_players_of (zero_meters S t) = stem_players_of t"
proof (cases "S = {}")
  case True
  then show ?thesis by simp
next
  case False
  show ?thesis
  proof (cases "ta_stems t")
    case None
    then show ?thesis using False
      by (auto simp: stem_players_of_def zero_meters_def empty_stem_def split: if_splits)
  next
    case (Some m0)
    define m1 where "m1 = (\<lambda>s. if s \<in> S
        then Some ((case m0 s of None \<Rightarrow> empty_stem | Some a \<Rightarrow> a)\<lparr>sa_volumeMeter := Some 0\<rparr>)
        else m0 s)"
    have st: "ta_stems (zero_meters S t) = Some m1"
      using False Some by (auto simp: zero_meters_def m1_def fun_eq_iff)
    have a: "\<exists>s a. m0 s = Some a \<and> sa_player a = Some p"
      if "m1 s = Some a" "sa_player a = Some p" for s a p
      using that unfolding m1_def
      by (cases "m0 s") (fastforce simp: empty_stem_def split: if_splits)+
    have b: "\<exists>s a. m1 s = Some a \<and> sa_player a = Some p"
      if "m0 s = Some a" "sa_player a = Some p" for s a p
      using that unfolding m1_def by (intro exI[of _ s]) auto
    have "{p. \<exists>s a. m1 s = Some a \<and> sa_player a = Some p}
            = {p. \<exists>s a. m0 s = Some a \<and> sa_player a = Some p}"
      using a b by blast
    then show ?thesis by (simp add: stem_players_of_def st Some)
  qed
qed

lemma stem_players_pause_track [simp]: "stem_players (pause_track ev j w) i = stem_players w i"
proof -
  have "stem_players_of (t\<lparr>ta_volumeMeter := a, ta_volumeMeterInterval := b, ta_playing := c\<rparr>)
          = stem_players_of t" for t a b c
    by (simp add: stem_players_of_def)
  then show ?thesis by (simp add: stem_players_def pause_track_cur pause_entry_def)
qed

lemma player_pause_track [simp]:
  "ta_player (cur_track (pause_track ev j w) i) = ta_player (cur_track w i)"
  by (simp add: pause_track_cur pause_entry_def)




lemma stop_players_state [simp]:
  "w_audioState (stop_players ev ps w) = w_audioState w"
  "w_timers (stop_players ev ps w) = w_timers w"
  by (induction ev ps w rule: stop_players.induct) (simp_all add: stop_player_def)

lemma cur_track_stop_players [simp]: "cur_track (stop_players ev ps w) i = cur_track w i"
  by (simp add: cur_track_def get_track_def)

lemma timer_recorded_stop_players [simp]:
  "timer_recorded (stop_players ev ps w) i = timer_recorded w i"
  by (simp add: timer_recorded_def)

lemma stem_players_stop_players [simp]: "stem_players (stop_players ev ps w) i = stem_players w i"
  by (simp add: stem_players_def)



text \<open>
  The hypothesis of C6 is an invariant of the transport: it holds while no timer is
  live, and \<^verbatim>\<open>play\<close> and \<^verbatim>\<open>pause\<close> keep it for every track.
\<close>

lemma timer_recorded_no_timers: "w_timers w = [] \<Longrightarrow> timer_recorded w i"
  by (simp add: timer_recorded_def)

lemma play_track_cur:
  "cur_track (play_track ev t0 i p tm w) j
     = (if j = i
        then (cur_track w i)\<lparr> ta_volumeMeterInterval := Some (w_nextTimer w), ta_playing := Some True \<rparr>
        else cur_track w j)"
proof -
  have "cur_track (w1\<lparr>w_cmds := c, w_timers := a, w_nextTimer := b\<rparr>) k = cur_track w1 k"
    for w1 a b c k
    by (simp add: cur_track_def get_track_def)
  then show ?thesis
    by (simp add: play_track_def Let_def setInterval_def cur_track_set_track)
qed

lemma play_track_timers:
  "w_timers (play_track ev t0 i p tm w)
     = (case ta_volumeMeterInterval (cur_track w i) of
          None \<Rightarrow> w_timers w
        | Some x \<Rightarrow> filter (\<lambda>(h', _). h' \<noteq> x) (w_timers w)) @ [(w_nextTimer w, i)]"
  by (simp add: play_track_def Let_def setInterval_def clearVolumeMeter_def interval_cur_track
      clearInterval_def split: option.splits)

lemma timer_recorded_play_track:
  assumes "timer_recorded w j"
  shows "timer_recorded (play_track ev t0 i p tm w) j"
proof (cases "j = i")
  case True
  have "h = w_nextTimer w" if "(h, i) \<in> set (w_timers (play_track ev t0 i p tm w))" for h
    using that assms True
    by (auto simp: play_track_timers timer_recorded_def split: option.splits)
  then show ?thesis using True by (auto simp: timer_recorded_def play_track_cur)
next
  case False
  have "(h, j) \<in> set (w_timers w)" if "(h, j) \<in> set (w_timers (play_track ev t0 i p tm w))" for h
    using that False by (auto simp: play_track_timers split: option.splits)
  then show ?thesis using assms False by (auto simp: timer_recorded_def play_track_cur)
qed

lemma timer_recorded_play_loop:
  "timer_recorded w j \<Longrightarrow> timer_recorded (play_loop ev t0 tid xs w) j"
proof (induction xs arbitrary: w)
  case Nil
  then show ?case by simp
next
  case (Cons x xs)
  obtain i t where x: "x = (i, t)" by (cases x)
  show ?case
  proof (cases "ta_waveform t = None \<or> ta_player t = None \<or> (truthy_id tid \<and> Some i \<noteq> tid)")
    case True
    then show ?thesis using Cons.IH[OF Cons.prems] by (simp add: x)
  next
    case False
    then show ?thesis
      using Cons.IH[OF timer_recorded_play_track[OF Cons.prems, of ev t0 i "the (ta_player t)" "ta_time t"]]
      by (auto simp: x)
  qed
qed

lemma timer_recorded_play: "timer_recorded w j \<Longrightarrow> timer_recorded (play ev tid w) j"
proof -
  assume a: "timer_recorded w j"
  have "timer_recorded (w\<lparr>w_instant := Suc (w_instant w)\<rparr>) j"
    using a by (simp add: timer_recorded_def cur_track_def get_track_def)
  then show ?thesis by (simp add: play_def Let_def timer_recorded_play_loop)
qed

lemma timer_recorded_pause_track:
  "timer_recorded w j \<Longrightarrow> timer_recorded (pause_track ev i w) j"
  by (cases "i = j")
     (auto intro: paused_timer_recorded pause_track_paused timer_recorded_pause_other)

lemma timer_recorded_pause_tracks:
  "timer_recorded w j \<Longrightarrow> timer_recorded (pause_tracks ev ids w) j"
  by (induction ids arbitrary: w) (auto intro: timer_recorded_pause_track)

lemma timer_recorded_pause: "timer_recorded w j \<Longrightarrow> timer_recorded (pause ev tid w) j"
  by (cases "truthy_id tid")
     (simp_all add: pause_def timer_recorded_pause_tracks timer_recorded_pause_track)

subsection \<open>crossfade\<close>

lemma volumes_values: "volumes 0 = [1, 0]" "volumes 50 = [1, 1]" "volumes 100 = [0, 1]"
  by (simp_all add: volumes_def)

lemma cur_track_tick [simp]: "cur_track (tick w) j = cur_track w j"
  by (simp add: cur_track_def get_track_def tick_def)

lemma get_stems_cur: "get_stems w i = ta_stems (cur_track w i)"
  by (simp add: get_stems_def cur_track_def empty_audio_def split: option.splits)

lemma cur_track_set_stem_gen:
  assumes "ta_stems (cur_track w i) = Some c" "c s = Some a"
  shows "cur_track (set_stem i s g w) j
     = (if j = i then (cur_track w i)\<lparr> ta_stems := Some (c(s \<mapsto> g a)) \<rparr> else cur_track w j)"
  using assms by (simp add: set_stem_def cur_track_set_track Let_def)

lemma updateVolume_stems_cur:
  assumes "distinct ss" "ta_stems (cur_track w i) = Some c" "\<forall>s\<in>set ss. c s = m s \<and> m s \<noteq> None"
  shows "\<exists>w'. updateVolume_stems i (Some v) f m ss w = Inr w'
      \<and> (\<forall>j. cur_track w' j =
            (if j = i
             then (cur_track w i)\<lparr> ta_stems :=
                    Some (\<lambda>s. if s \<in> set ss then map_option (gain_stem f v s) (c s) else c s) \<rparr>
             else cur_track w j))"
  using assms
proof (induction ss arbitrary: w c)
  case Nil
  then show ?case by simp
next
  case (Cons s ss)
  from Cons.prems obtain a where a: "c s = Some a" "m s = Some a" by auto
  have rest: "distinct ss" "s \<notin> set ss" using Cons.prems(1) by simp_all
  show ?case
  proof (cases "(f = None \<or> f = Some s) \<and> sa_gainNode a \<noteq> None")
    case False
    then have skip: "updateVolume_stems i (Some v) f m (s # ss) w = updateVolume_stems i (Some v) f m ss w"
      using a by (auto split: option.splits)
    have g: "gain_stem f v s a = a" using False by (auto simp: gain_stem_def)
    from Cons.IH[OF rest(1) Cons.prems(2)] Cons.prems(3) obtain w' where w':
      "updateVolume_stems i (Some v) f m ss w = Inr w'"
      "\<forall>j. cur_track w' j =
            (if j = i
             then (cur_track w i)\<lparr> ta_stems :=
                    Some (\<lambda>s. if s \<in> set ss then map_option (gain_stem f v s) (c s) else c s) \<rparr>
             else cur_track w j)" by auto
    have "(\<lambda>x. if x \<in> set (s # ss) then map_option (gain_stem f v x) (c x) else c x)
        = (\<lambda>x. if x \<in> set ss then map_option (gain_stem f v x) (c x) else c x)"
      using a g by (auto simp: fun_eq_iff)
    then show ?thesis using skip w' by simp
  next
    case True
    let ?w1 = "tick (set_stem i s (\<lambda>a. a\<lparr> sa_gainNode := Some v \<rparr>) w)"
    let ?c1 = "c(s \<mapsto> a\<lparr> sa_gainNode := Some v \<rparr>)"
    have upd: "updateVolume_stems i (Some v) f m (s # ss) w = updateVolume_stems i (Some v) f m ss ?w1"
      using True a by (auto split: option.splits)
    have c1: "\<forall>j. cur_track ?w1 j = (if j = i then (cur_track w i)\<lparr> ta_stems := Some ?c1 \<rparr> else cur_track w j)"
      using cur_track_set_stem_gen[OF Cons.prems(2) a(1)] by simp
    then have st1: "ta_stems (cur_track ?w1 i) = Some ?c1" by simp
    have agree: "\<forall>x\<in>set ss. ?c1 x = m x \<and> m x \<noteq> None"
      using Cons.prems(3) rest(2) by auto
    from Cons.IH[OF rest(1) st1 agree] obtain w' where w':
      "updateVolume_stems i (Some v) f m ss ?w1 = Inr w'"
      "\<forall>j. cur_track w' j =
            (if j = i
             then (cur_track ?w1 i)\<lparr> ta_stems :=
                    Some (\<lambda>x. if x \<in> set ss then map_option (gain_stem f v x) (?c1 x) else ?c1 x) \<rparr>
             else cur_track ?w1 j)" by blast
    have g: "gain_stem f v s a = a\<lparr> sa_gainNode := Some v \<rparr>" using True by (auto simp: gain_stem_def)
    have eq: "(\<lambda>x. if x \<in> set ss then map_option (gain_stem f v x) (?c1 x) else ?c1 x)
        = (\<lambda>x. if x \<in> set (s # ss) then map_option (gain_stem f v x) (c x) else c x)"
      using a g rest(2) by (auto simp: fun_eq_iff)
    have "\<forall>j. cur_track w' j =
            (if j = i
             then (cur_track w i)\<lparr> ta_stems :=
                    Some (\<lambda>x. if x \<in> set (s # ss) then map_option (gain_stem f v x) (c x) else c x) \<rparr>
             else cur_track w j)"
      using w'(2) c1 unfolding eq by simp
    then show ?thesis using upd w'(1) by simp
  qed
qed

lemma distinct_stem_keys [simp]: "distinct (stem_keys m)"
  by (simp add: stem_keys_def STEMS_def)

lemma updateVolume_cur:
  "\<exists>w'. updateVolume i (Some v) f w = Inr w'
      \<and> (\<forall>j. cur_track w' j = (if j = i then apply_gain f v (cur_track w i) else cur_track w j))"
proof (cases "ta_stems (cur_track w i)")
  case None
  then show ?thesis
    by (cases "ta_gainNode (cur_track w i)")
       (simp_all add: updateVolume_def get_stems_cur apply_gain_def cur_track_set_track)
next
  case (Some c)
  have "\<forall>s\<in>set (stem_keys c). c s = c s \<and> c s \<noteq> None" by simp
  from updateVolume_stems_cur[OF distinct_stem_keys Some this, of v f] obtain w' where w':
    "updateVolume_stems i (Some v) f c (stem_keys c) w = Inr w'"
    "\<forall>j. cur_track w' j =
            (if j = i
             then (cur_track w i)\<lparr> ta_stems :=
                    Some (\<lambda>s. if s \<in> set (stem_keys c) then map_option (gain_stem f v s) (c s) else c s) \<rparr>
             else cur_track w j)" by blast
  have "(\<lambda>s. if s \<in> set (stem_keys c) then map_option (gain_stem f v s) (c s) else c s)
        = (\<lambda>s. map_option (gain_stem f v s) (c s))"
    by (auto simp: fun_eq_iff)
  then show ?thesis using w' Some by (simp add: updateVolume_def get_stems_cur apply_gain_def)
qed

lemma crossfade_slot:
  "\<exists>w'. (if truthy_id x then updateVolume (the x) (Some g) f w else Inr w) = Inr w'
      \<and> (\<forall>j. cur_track w' j
             = (if truthy_id x \<and> j = the x then apply_gain f g (cur_track w j) else cur_track w j))"
proof (cases "truthy_id x")
  case True
  from updateVolume_cur[of "the x" g f w] obtain w' where
    "updateVolume (the x) (Some g) f w = Inr w'"
    "\<forall>j. cur_track w' j = (if j = the x then apply_gain f g (cur_track w (the x)) else cur_track w j)"
    by blast
  then show ?thesis using True by auto
next
  case False
  then show ?thesis by simp
qed

lemma crossfade_loop_slots:
  assumes len: "length tracks \<le> 2" and dist: "distinct (filter truthy_id tracks)"
  shows "\<exists>w'. crossfade_loop tracks 0 [gA, gB] f w = Inr w'
      \<and> (\<forall>i<length tracks. truthy_id (tracks ! i) \<longrightarrow>
            cur_track w' (the (tracks ! i)) = apply_gain f ([gA, gB] ! i) (cur_track w (the (tracks ! i))))"
proof -
  consider "tracks = []" | x where "tracks = [x]" | x y where "tracks = [x, y]"
    using len by (cases tracks; cases "tl tracks"; cases "tl (tl tracks)") auto
  then show ?thesis
  proof cases
    case 1
    then show ?thesis by simp
  next
    case 2
    from crossfade_slot[of x gA f w] obtain w1 where w1:
      "(if truthy_id x then updateVolume (the x) (Some gA) f w else Inr w) = Inr w1"
      "\<forall>j. cur_track w1 j
             = (if truthy_id x \<and> j = the x then apply_gain f gA (cur_track w j) else cur_track w j)"
      by blast
    have "crossfade_loop tracks 0 [gA, gB] f w = Inr w1"
      using w1(1) 2 by (auto simp: nth_opt_def split: if_splits)
    then show ?thesis using w1(2) 2 by simp
  next
    case 3
    from crossfade_slot[of x gA f w] obtain w1 where w1:
      "(if truthy_id x then updateVolume (the x) (Some gA) f w else Inr w) = Inr w1"
      "\<forall>j. cur_track w1 j
             = (if truthy_id x \<and> j = the x then apply_gain f gA (cur_track w j) else cur_track w j)"
      by blast
    from crossfade_slot[of y gB f w1] obtain w2 where w2:
      "(if truthy_id y then updateVolume (the y) (Some gB) f w1 else Inr w1) = Inr w2"
      "\<forall>j. cur_track w2 j
             = (if truthy_id y \<and> j = the y then apply_gain f gB (cur_track w1 j) else cur_track w1 j)"
      by blast
    have run: "crossfade_loop tracks 0 [gA, gB] f w = Inr w2"
      using w1(1) w2(1) 3 by (auto simp: nth_opt_def split: if_splits)
    have ne: "truthy_id x \<and> truthy_id y \<longrightarrow> the x \<noteq> the y"
      using dist 3 by (auto simp: truthy_id_def split: option.splits)
    have a: "truthy_id x \<longrightarrow> cur_track w2 (the x) = apply_gain f gA (cur_track w (the x))"
      using w1(2) w2(2) ne by auto
    have b: "truthy_id y \<longrightarrow> cur_track w2 (the y) = apply_gain f gB (cur_track w (the y))"
      using w1(2) w2(2) ne by auto
    have "\<forall>i<length tracks. truthy_id (tracks ! i) \<longrightarrow>
            cur_track w2 (the (tracks ! i)) = apply_gain f ([gA, gB] ! i) (cur_track w (the (tracks ! i)))"
      using a b 3 by (auto simp: less_Suc_eq)
    with run show ?thesis by blast
  qed
qed

text \<open>
  Claim C4.  For a slider value \<open>v\<close> and \<open>p = v / 100\<close> the pair of volumes is
  \<open>min 1 (1 + cos (p * pi))\<close> for slot A and \<open>min 1 (1 + cos ((1 - p) * pi))\<close> for slot B.
  On a mix of at most two slots that hold different tracks, crossfade returns and has
  applied to the track of every occupied slot the volume of that slot: to the single gain
  control of a track without stems, and to the gain control of every stem of a track with
  stems, or of the one stem the filter names.  The pair of volumes is (1, 0) at 0, (1, 1)
  at 50 and (0, 1) at 100.
\<close>

theorem crossfade_gains:
  assumes "e_mixTracks ev = Some tracks" "length tracks \<le> 2" "distinct (filter truthy_id tracks)"
  shows "volumes v = [min 1 (1 + cos (v / 100 * pi)), min 1 (1 + cos ((1 - v / 100) * pi))]
       \<and> (\<exists>w'. crossfade ev v stemType w = Inr w'
           \<and> (\<forall>i<length tracks. truthy_id (tracks ! i) \<longrightarrow>
                 cur_track w' (the (tracks ! i))
                   = apply_gain stemType (volumes v ! i) (cur_track w (the (tracks ! i)))))
       \<and> volumes 0 = [1, 0] \<and> volumes 50 = [1, 1] \<and> volumes 100 = [0, 1]"
proof -
  have v: "volumes v = [min 1 (1 + cos (v / 100 * pi)), min 1 (1 + cos ((1 - v / 100) * pi))]"
    by (simp add: volumes_def)
  from crossfade_loop_slots[OF assms(2,3), of "min 1 (1 + cos (v / 100 * pi))"
      "min 1 (1 + cos ((1 - v / 100) * pi))" stemType w]
  have "\<exists>w'. crossfade ev v stemType w = Inr w'
           \<and> (\<forall>i<length tracks. truthy_id (tracks ! i) \<longrightarrow>
                 cur_track w' (the (tracks ! i))
                   = apply_gain stemType (volumes v ! i) (cur_track w (the (tracks ! i))))"
    unfolding v by (simp add: crossfade_def assms(1) v[symmetric]) (simp add: v)
  with v volumes_values show ?thesis by blast
qed

lemmas store_eval =
  get_stems_def get_track_def cur_track_def set_stem_def set_track_def tick_def
  stem_keys_def STEMS_def example_world_def track1_def track2_def empty_audio_def
  example_stems_def empty_stem_def Let_def

text \<open>
  On the example mix the slider at 0 leaves the gain of track 1 at 1 and sets the gain of
  every stem of track 2 to 0.
\<close>

theorem crossfade_gains_witness:
  "\<exists>w'. crossfade example_env 0 None example_world = Inr w'
      \<and> ta_gainNode (cur_track w' 1) = Some 1
      \<and> map_option sa_gainNode (the (ta_stems (cur_track w' 2)) drums) = Some (Some 0)
      \<and> map_option sa_gainNode (the (ta_stems (cur_track w' 2)) other) = Some (Some 0)"
proof -
  have m: "e_mixTracks example_env = Some [Some 1, Some 2]" by (simp add: example_env_def)
  have d: "distinct (filter truthy_id [Some 1, Some (2::nat)])" by (simp add: truthy_id_def)
  from crossfade_gains[OF m _ d, of 0 None example_world] obtain w' where w':
    "crossfade example_env 0 None example_world = Inr w'"
    "\<forall>i<2. truthy_id ([Some 1, Some 2] ! i) \<longrightarrow>
         cur_track w' (the ([Some 1, Some 2] ! i))
           = apply_gain None (volumes 0 ! i) (cur_track example_world (the ([Some 1, Some 2] ! i)))"
    by auto
  have v: "volumes 0 = [1, 0]" by (rule volumes_values)
  have a: "cur_track w' 1 = apply_gain None 1 (cur_track example_world 1)"
    using w'(2)[rule_format, of 0] by (simp add: truthy_id_def v)
  have b: "cur_track w' 2 = apply_gain None 0 (cur_track example_world 2)"
    using w'(2)[rule_format, of 1] by (simp add: truthy_id_def v)
  have "ta_gainNode (cur_track w' 1) = Some 1"
    unfolding a by (simp add: apply_gain_def store_eval)
  moreover have "map_option sa_gainNode (the (ta_stems (cur_track w' 2)) drums) = Some (Some 0)"
    "map_option sa_gainNode (the (ta_stems (cur_track w' 2)) other) = Some (Some 0)"
    unfolding b by (simp_all add: apply_gain_def gain_stem_def store_eval)
  ultimately show ?thesis using w'(1) by blast
qed

subsection \<open>The stem controls\<close>

text \<open>
  Claim C10 at a stem whose stored volume is 0.  The bass of track 2 is set to volume 0;
  soloing the drums mutes it (gain 0); releasing the solo sets its gain to 1, although
  its stored volume is still 0: \<^verbatim>\<open>volume || 1\<close> takes a volume of zero for a missing
  one.
\<close>

theorem solo_release_ignores_zero_volume:
  "map_option sa_volume (the (get_stems solo_released 2) bass) = Some (Some 0)
   \<and> map_option sa_gainNode (the (get_stems drums_soloed 2) bass) = Some (Some 0)
   \<and> map_option sa_gainNode (the (get_stems solo_released 2) bass) = Some (Some 1)"
  by (simp add: solo_released_def drums_soloed_def bass_silenced_def stemSoloToggle_def
      stemMuteToggle_def stemVolume_def js_or_num_def store_eval)

subsection \<open>seek\<close>

text \<open>
  Claim C3 at the elapsed time 0.9 with a skip length of 0.5 and markers every 0.5 s.
  The quotient 1.8 rounds to the marker index 2, whose time is 1, and that is where
  \<^verbatim>\<open>seekEvent\<close> puts the playhead.  \<^verbatim>\<open>seek\<close> takes the floor, index 1, and moves
  the track to 0.5.
\<close>

theorem seek_floors_marker_index:
  "map_sum id (\<lambda>w. ta_time (cur_track w 1)) (seek example_env 1 (Some 0.9) None example_world)
     = Inr (Some 0.5)
   \<and> marker_at [0, 0.5, 1, 1.5, 2] (js_round (0.9 / 0.5)) = Some 1
   \<and> seekEvent example_waveform (Some 0.9) None = Some (SetPlayheadTime 1)"
  by (simp add: seek_def seek_target_def seekEvent_def marker_at_def step_def js_round_def
      js_or_num_def truthy_def example_waveform_def store_eval)

subsection \<open>destroy\<close>

text \<open>
  Claim C8 on a channel where the waveform of track 1 has registered its callback.
  \<^verbatim>\<open>destroy\<close> removes the entry of the track from the store.  But the channel
  registered an arrow function around the callback, \<^verbatim>\<open>destroyEvent\<close> asks for the
  removal of the callback itself, which is no listener of the channel, and an event
  emitted for the track afterwards still reaches the callback.
\<close>

theorem destroy_leaves_listener:
  "get_track (destroy 1 example_world) 1 = None
   \<and> emit 1 ''seek'' (destroyEvent 1 (Callback 7) loaded_channel) = [(Callback 7, ''seek'')]"
  by (simp add: destroy_def get_track_def example_world_def emit_def destroyEvent_def
      off_event_def on_event_def loaded_channel_def empty_channel_def)

section \<open>Verification of the stem lifecycle\<close>

lemma map_of_storeTrackCache_same:
  "map_of (storeTrackCache i f st db) i
     = Some \<lparr> tc_file = (case f of None \<Rightarrow> (case map_of db i of None \<Rightarrow> None | Some c \<Rightarrow> tc_file c)
                                  | Some x \<Rightarrow> Some x),
              tc_stems = (case cached_stems db i of
                            None \<Rightarrow> st
                          | Some cs \<Rightarrow> Some (cs ++ (case st of None \<Rightarrow> Map.empty | Some m \<Rightarrow> m))) \<rparr>"
  by (simp add: storeTrackCache_def Let_def update_conv' cached_stems_def)

lemma cached_stems_store_same:
  "cached_stems (storeTrackCache i f st db) i
     = (case cached_stems db i of
          None \<Rightarrow> st
        | Some cs \<Rightarrow> Some (cs ++ (case st of None \<Rightarrow> Map.empty | Some m \<Rightarrow> m)))"
  by (simp add: cached_stems_def[of "storeTrackCache i f st db"] map_of_storeTrackCache_same)

lemma cached_stems_store_other:
  assumes "j \<noteq> i"
  shows "cached_stems (storeTrackCache i f st db) j = cached_stems db j
       \<or> cached_stems (storeTrackCache i f st db) j = None"
  using assms
  by (auto simp: storeTrackCache_def Let_def update_conv' delete_conv' cached_stems_def
           split: option.splits)

lemma has_stem_store:
  "has_stem (storeTrackCache i f (Some ((\<lambda>_. None)(s \<mapsto> x))) db) i s' \<longleftrightarrow> s' = s \<or> has_stem db i s'"
  by (auto simp: has_stem_def cached_stems_store_same map_add_def split: option.splits)

lemma store_stems_has:
  "store_stems sv i ss db = (None, db') \<Longrightarrow> has_stem db' i s \<longleftrightarrow> s \<in> set ss \<or> has_stem db i s"
proof (induction ss arbitrary: db)
  case Nil
  then show ?case by simp
next
  case (Cons a ss)
  then show ?case by (auto simp: has_stem_store split: if_splits)
qed

lemma store_stems_other:
  "store_stems sv i ss db = (e, db') \<Longrightarrow> j \<noteq> i \<Longrightarrow>
     cached_stems db' j = cached_stems db j \<or> cached_stems db' j = None"
proof (induction ss arbitrary: db)
  case Nil
  then show ?case by simp
next
  case (Cons a ss)
  show ?case
  proof (cases "sv_writeOk sv a")
    case False
    then show ?thesis using Cons.prems by simp
  next
    case True
    let ?db1 = "storeTrackCache i None (Some ((\<lambda>_. None)(a \<mapsto> \<lparr>sf_file = sv_stemFetch sv a\<rparr>))) db"
    have "store_stems sv i ss ?db1 = (e, db')" using Cons.prems(1) True by simp
    from Cons.IH[OF this Cons.prems(2)]
    have "cached_stems db' j = cached_stems ?db1 j \<or> cached_stems db' j = None" .
    moreover have "cached_stems ?db1 j = cached_stems db j \<or> cached_stems ?db1 j = None"
      using Cons.prems(2) by (rule cached_stems_store_other)
    ultimately show ?thesis by auto
  qed
qed

lemma count_keys_full: "\<not> count_keys m < 4 \<Longrightarrow> m s \<noteq> None"
  by (cases s) (auto simp: count_keys_def STEMS_def split: if_splits)

lemma checkAccess_cache:
  assumes "checkAccess ae i stt db = Inr (r, db')"
  shows "db' = db \<or> (cached_stems db i = None
            \<and> (\<exists>m. (\<forall>s. m s \<noteq> None) \<and> db' = storeTrackCache i None (Some m) db))"
proof (cases "db' = db")
  case True
  then show ?thesis by simp
next
  case False
  then obtain files where f: "cached_stems db i = None"
    "\<not> count_keys (localStems files (\<lambda>_. None)) < 4"
    "db' = storeTrackCache i None (Some (localStems files (\<lambda>_. None))) db"
    using assms
    by (auto simp: checkAccess_def cached_stems_def Let_def split: if_splits option.splits)
  have "\<forall>s. localStems files (\<lambda>_. None) s \<noteq> None"
    by (intro allI count_keys_full[OF f(2)])
  with f(1,3) show ?thesis by blast
qed

lemma checkAccess_whole:
  assumes "checkAccess ae i stt db = Inr (r, db')" "cache_whole db"
  shows "cache_whole db'"
proof -
  from checkAccess_cache[OF assms(1)] show ?thesis
  proof
    assume "db' = db" then show ?thesis using assms(2) by simp
  next
    assume "cached_stems db i = None
            \<and> (\<exists>m. (\<forall>s. m s \<noteq> None) \<and> db' = storeTrackCache i None (Some m) db)"
    then obtain m where m: "cached_stems db i = None" "\<forall>s. m s \<noteq> None"
      "db' = storeTrackCache i None (Some m) db" by blast
    show ?thesis unfolding cache_whole_def
    proof (intro allI impI)
      fix j m' assume h: "cached_stems db' j = Some m'"
      show "whole m'"
      proof (cases "j = i")
        case True
        then have "m' = m" using h m by (simp add: cached_stems_store_same)
        then show ?thesis using m(2) by (simp add: whole_def)
      next
        case False
        from cached_stems_store_other[OF False, of None "Some m" db] h m(3)
        have "cached_stems db j = Some m'" by auto
        then show ?thesis using assms(2) by (auto simp: cache_whole_def)
      qed
    qed
  qed
qed

lemma set_stem_state_cache [simp]:
  "sw_trackCache (set_stemState i st w) = sw_trackCache w"
  "sw_trackCache (set_stemTimer i x w) = sw_trackCache w"
  "sw_uploads (set_stemState i st w) = sw_uploads w"
  "sw_uploads (set_stemTimer i x w) = sw_uploads w"
  by (simp_all add: set_stemState_def set_stemTimer_def)

lemma validate_cache:
  assumes "validateTrackStemAccess ae i w = Inr (st, w')"
  shows "\<exists>stt. checkAccess ae i stt (sw_trackCache w) = Inr (st, sw_trackCache w')"
    and "sw_uploads w' = sw_uploads w"
  using assms
  by (auto simp: validateTrackStemAccess_def Let_def split: if_splits sum.splits option.splits)

lemma stemAudio_returned:
  assumes "stemAudio sv i w = (Returned, w')"
  shows "store_stems sv i STEMS (sw_trackCache w) = (None, sw_trackCache w')"
  using assms
  by (auto simp: stemAudio_def Let_def
           split: if_splits wait_result.splits prod.splits option.splits)

text \<open>
  Claim C5, amended.  For a track in the phase processingStems, with no stems in the
  cache and a stems directory whose read-write permission is granted, the access check
  is a no-op that returns the current phase: the state is unchanged.  In no phase does
  the access check start a generation: it makes no upload.
\<close>

theorem validate_guard_processing:
  "(trackId \<noteq> 0 \<and> sw_audioState w trackId = Some e \<and> se_stemState e = Some processingStems
      \<and> cached_stems (sw_trackCache w) trackId = None
      \<and> ae_stemsDirHandle ae = Some d \<and> sd_queryPermission d = Some granted
    \<longrightarrow> validateTrackStemAccess ae trackId w = Inr (processingStems, w))
   \<and> (validateTrackStemAccess ae trackId w = Inr (st, w') \<longrightarrow> sw_uploads w' = sw_uploads w)"
proof (intro conjI impI)
  assume h: "trackId \<noteq> 0 \<and> sw_audioState w trackId = Some e \<and> se_stemState e = Some processingStems
      \<and> cached_stems (sw_trackCache w) trackId = None
      \<and> ae_stemsDirHandle ae = Some d \<and> sd_queryPermission d = Some granted"
  then have "checkAccess ae trackId (Some processingStems) (sw_trackCache w)
               = Inr (processingStems, sw_trackCache w)"
    by (simp add: checkAccess_def cached_stems_def)
  then show "validateTrackStemAccess ae trackId w = Inr (processingStems, w)"
    using h by (simp add: validateTrackStemAccess_def Let_def)
next
  assume "validateTrackStemAccess ae trackId w = Inr (st, w')"
  then show "sw_uploads w' = sw_uploads w" by (rule validate_cache(2))
qed

lemmas stems_eval =
  validateTrackStemAccess_def checkAccess_def generating_def example_access_def
  no_dir_access_def cached_stems_def Let_def

text \<open>
  Track 1 in the phase processingStems, checked against a granted stems directory.
\<close>

theorem validate_guard_processing_witness:
  "cached_stems (sw_trackCache (generating processingStems)) 1 = None
   \<and> validateTrackStemAccess example_access 1 (generating processingStems)
       = Inr (processingStems, generating processingStems)"
proof -
  have c: "cached_stems (sw_trackCache (generating processingStems)) 1 = None"
    by (simp add: generating_def cached_stems_def)
  have "sw_audioState (generating processingStems) 1
          = Some \<lparr> se_stemState = Some processingStems, se_stemTimer = Some 100 \<rparr>"
    by (simp add: generating_def)
  with c show ?thesis
    using validate_guard_processing[of 1 "generating processingStems"
        "\<lparr> se_stemState = Some processingStems, se_stemTimer = Some 100 \<rparr>" example_access
        "\<lparr> sd_queryPermission = Some granted, sd_entries = (\<lambda>_. None) \<rparr>"]
    by (simp add: example_access_def)
qed

text \<open>
  Claim C5 as stated fails.  The guard names one phase only: for a track in the phase
  uploadingFile the check returns getStems and overwrites the phase with it.  And the
  guard stands behind the directory checks: for a track in the phase processingStems
  and no stems directory configured the check returns selectStemDir.  The generation
  itself looks at no phase: called for a track in the phase processingStems it uploads
  the file a second time.
\<close>

theorem validate_guard_counterexample:
  "map_option se_stemState (sw_audioState (generating uploadingFile) 1) = Some (Some uploadingFile)
   \<and> map_sum id fst (validateTrackStemAccess example_access 1 (generating uploadingFile))
       = Inr getStems
   \<and> map_sum id (\<lambda>r. map_option se_stemState (sw_audioState (snd r) 1))
        (validateTrackStemAccess example_access 1 (generating uploadingFile))
       = Inr (Some (Some getStems))
   \<and> map_sum id fst (validateTrackStemAccess no_dir_access 1 (generating processingStems))
       = Inr selectStemDir
   \<and> sw_uploads (generating processingStems) = [1]
   \<and> sw_uploads (snd (stemAudio good_service 1 (generating processingStems))) = [1, 1]"
  by (simp add: stems_eval FILENAME_def)
     (simp add: stemAudio_def good_service_def generating_def Let_def STEMS_def
        set_stemState_def set_stemTimer_def split: prod.splits)

text \<open>
  Claim C9, amended.  The access check keeps every cached stems map whole (empty or
  with all four stems): when it writes the cache it writes the four stems at once.  A
  generation that returns leaves the cache whole and the track with all four stems; on
  its way it stores the stems one at a time, and the map is partial between the writes.
\<close>

theorem stems_cache_whole:
  "(cache_whole (sw_trackCache w) \<and> validateTrackStemAccess ae i w = Inr (st, w')
      \<longrightarrow> cache_whole (sw_trackCache w'))
   \<and> (cache_whole (sw_trackCache w) \<and> stemAudio sv i w = (Returned, w'')
      \<longrightarrow> cache_whole (sw_trackCache w'') \<and> (\<forall>s. has_stem (sw_trackCache w'') i s))"
proof (intro conjI impI)
  assume h: "cache_whole (sw_trackCache w) \<and> validateTrackStemAccess ae i w = Inr (st, w')"
  then obtain stt where "checkAccess ae i stt (sw_trackCache w) = Inr (st, sw_trackCache w')"
    using validate_cache(1) by blast
  then show "cache_whole (sw_trackCache w')" using h by (blast intro: checkAccess_whole)
next
  assume h: "cache_whole (sw_trackCache w) \<and> stemAudio sv i w = (Returned, w'')"
  then have st: "store_stems sv i STEMS (sw_trackCache w) = (None, sw_trackCache w'')"
    by (blast intro: stemAudio_returned)
  have all: "has_stem (sw_trackCache w'') i s" for s
    using store_stems_has[OF st, of s] by simp
  then show "\<forall>s. has_stem (sw_trackCache w'') i s" by blast
  show "cache_whole (sw_trackCache w'')"
    unfolding cache_whole_def
  proof (intro allI impI)
    fix j m assume m: "cached_stems (sw_trackCache w'') j = Some m"
    show "whole m"
    proof (cases "j = i")
      case True
      have "m s \<noteq> None" for s using all[of s] m True by (simp add: has_stem_def)
      then show ?thesis by (simp add: whole_def)
    next
      case False
      from store_stems_other[OF st False] m
      have "cached_stems (sw_trackCache w) j = Some m" by auto
      then show ?thesis using h by (auto simp: cache_whole_def)
    qed
  qed
qed

text \<open>
  Claim C9 as stated fails.  One call of \<^verbatim>\<open>storeTrackCache\<close> with the drums alone
  takes a whole cache to one where the track has a stems map of one stem; and that call
  is the first write of the generation's store loop.
\<close>

theorem stems_cache_partial_counterexample:
  "cache_whole (sw_trackCache (generating downloadingStems))
   \<and> \<not> cache_whole (storeTrackCache 1 None (Some ((\<lambda>_. None)(drums \<mapsto> \<lparr>sf_file = Some 31\<rparr>)))
                          (sw_trackCache (generating downloadingStems)))
   \<and> has_stem (storeTrackCache 1 None (Some ((\<lambda>_. None)(drums \<mapsto> \<lparr>sf_file = Some 31\<rparr>)))
                 (sw_trackCache (generating downloadingStems))) 1 drums
   \<and> \<not> has_stem (storeTrackCache 1 None (Some ((\<lambda>_. None)(drums \<mapsto> \<lparr>sf_file = Some 31\<rparr>)))
                   (sw_trackCache (generating downloadingStems))) 1 bass
   \<and> snd (store_stems good_service 1 [drums] (sw_trackCache (generating downloadingStems)))
       = storeTrackCache 1 None (Some ((\<lambda>_. None)(drums \<mapsto> \<lparr>sf_file = Some 31\<rparr>)))
           (sw_trackCache (generating downloadingStems))"
proof -
  let ?db = "storeTrackCache 1 None (Some ((\<lambda>_. None)(drums \<mapsto> \<lparr>sf_file = Some 31\<rparr>)))
               (sw_trackCache (generating downloadingStems))"
  have c: "cached_stems ?db 1 = Some ((\<lambda>_. None)(drums \<mapsto> \<lparr>sf_file = Some 31\<rparr>))"
    by (simp add: generating_def cached_stems_store_same) (simp add: cached_stems_def)
  have "\<not> whole ((\<lambda>_. None)(drums \<mapsto> \<lparr>sf_file = Some 31\<rparr>))"
    by (auto simp: whole_def intro: exI[of _ bass] exI[of _ drums])
  with c have "\<not> cache_whole ?db" unfolding cache_whole_def by blast
  moreover have "cache_whole (sw_trackCache (generating downloadingStems))"
    by (auto simp: cache_whole_def cached_stems_def generating_def split: if_splits)
  moreover have "has_stem ?db 1 drums" "\<not> has_stem ?db 1 bass"
    using c by (simp_all add: has_stem_def)
  moreover have "snd (store_stems good_service 1 [drums] (sw_trackCache (generating downloadingStems))) = ?db"
    by (simp add: good_service_def)
  ultimately show ?thesis by blast
qed

text \<open>
  Both ways of filling the cache end with a whole cache: the access check that finds the
  four stem files on disk, and a generation that returns.
\<close>

theorem stems_cache_whole_witness:
  "cache_whole (sw_trackCache (generating getStems))
   \<and> map_sum id fst (validateTrackStemAccess stems_on_disk 1 (generating getStems)) = Inr ready
   \<and> cache_whole (sw_trackCache (snd (projr (validateTrackStemAccess stems_on_disk 1 (generating getStems)))))
   \<and> fst (stemAudio good_service 1 (generating getStems)) = Returned
   \<and> cache_whole (sw_trackCache (snd (stemAudio good_service 1 (generating getStems))))
   \<and> has_stem (sw_trackCache (snd (stemAudio good_service 1 (generating getStems)))) 1 vocals"
proof -
  have w: "cache_whole (sw_trackCache (generating getStems))"
    by (auto simp: cache_whole_def cached_stems_def generating_def split: if_splits)
  obtain w' where v: "validateTrackStemAccess stems_on_disk 1 (generating getStems) = Inr (ready, w')"
    by (simp add: validateTrackStemAccess_def checkAccess_def generating_def stems_on_disk_def
        Let_def FILENAME_def count_keys_def STEMS_def stem_of_name_def ends_with_def)
  obtain w'' where a: "stemAudio good_service 1 (generating getStems) = (Returned, w'')"
    by (simp add: stemAudio_def good_service_def generating_def Let_def STEMS_def
        set_stemState_def set_stemTimer_def split: prod.splits)
  from stems_cache_whole[of "generating getStems" stems_on_disk 1 ready w' good_service w''] w v a
  show ?thesis by simp
qed

end
